theory Spec2Isabelle
  imports Main "HOL-Library.AList" "HOL-Library.Word"
begin

section \<open>Python values shared by the modules\<close>

text \<open>
  Exceptions the modelled code can raise. \<open>TransportError\<close> stands for whatever
  \<open>client.recv()\<close> raises when the session fails; \<open>BinasciiError\<close> is raised by
  \<open>base64.b64decode\<close>, \<open>StructError\<close> by \<open>struct.pack\<close> inside the \<open>wave\<close> module,
  \<open>FileNotFoundError\<close> by \<open>open\<close>, \<open>AttributeError\<close> (with the attribute's name) by the
  lookup of a name that a module does not define.
\<close>

datatype exn =
    KeyError string
  | ValueError string
  | BinasciiError
  | StructError
  | FileNotFoundError string
  | AttributeError string
  | TransportError string

type_synonym byte = "8 word"

subsection \<open>Strings\<close>

text \<open>\<open>s.startswith(p)\<close>.\<close>

definition startswith :: "string \<Rightarrow> string \<Rightarrow> bool" where
  "startswith s p = (take (length p) s = p)"

text \<open>
  \<open>s.replace(old, new)\<close>: every non-overlapping occurrence of \<open>old\<close>, scanning from the
  left, is replaced; an empty \<open>old\<close> matches between all characters.
\<close>

function str_replace :: "string \<Rightarrow> string \<Rightarrow> string \<Rightarrow> string" where
  "str_replace old new [] = (if old = [] then new else [])"
| "str_replace old new (c # cs) =
     (if old = [] then new @ c # str_replace old new cs
      else if startswith (c # cs) old
        then new @ str_replace old new (drop (length old) (c # cs))
      else c # str_replace old new cs)"
  by pat_completeness auto
termination
  by (relation "measure (\<lambda>(old, new, s). length s)") auto

text \<open>
  \<open>s.lower()\<close> on ASCII text: the letters \<open>A\<close>..\<open>Z\<close> are mapped to \<open>a\<close>..\<open>z\<close>, every
  other character is kept. (Names of environment variables are taken to be ASCII.)
\<close>

definition lower_char :: "char \<Rightarrow> char" where
  "lower_char c =
     (let n = (of_char c :: nat) in if 65 \<le> n \<and> n \<le> 90 then char_of (n + 32) else c)"

definition lower :: "string \<Rightarrow> string" where
  "lower s = map lower_char s"

section \<open>models_config.py\<close>

text \<open>
  \<open>os.environ\<close> is a mapping from names to values that is iterated in a fixed order:
  an association list. \<open>k in os.environ\<close>, \<open>os.environ[k]\<close> (raising \<open>KeyError\<close>) and
  \<open>os.environ.get(k, d)\<close> are the three accesses the module makes.
\<close>

type_synonym environ = "(string \<times> string) list"

definition env_keys :: "environ \<Rightarrow> string list" where
  "env_keys env = map fst env"

definition env_contains :: "environ \<Rightarrow> string \<Rightarrow> bool" where
  "env_contains env k = (k \<in> set (env_keys env))"

definition env_getitem :: "environ \<Rightarrow> string \<Rightarrow> exn + string" where
  "env_getitem env k = (case map_of env k of None \<Rightarrow> Inl (KeyError k) | Some v \<Rightarrow> Inr v)"

definition env_get :: "environ \<Rightarrow> string \<Rightarrow> string \<Rightarrow> string" where
  "env_get env k d = (case map_of env k of None \<Rightarrow> d | Some v \<Rightarrow> v)"

text \<open>The value stored per model id: \<open>{"name": display_name, "suffix": suffix}\<close>.\<close>

record model_info =
  name :: string
  suffix :: string

text \<open>
  The \<open>models\<close> dictionary. A Python dict keeps insertion order and assigning to an
  existing key replaces the value in place, which is what \<open>AList.update\<close> does.
\<close>

type_synonym models = "(string \<times> model_info) list"

definition required_keys :: "string list" where
  "required_keys = [''ENDPOINT'', ''API_KEY'', ''API_VERSION'', ''DEPLOYMENT_NAME'', ''API_TYPE'']"

definition required_vars_exist :: "environ \<Rightarrow> string \<Rightarrow> bool" where
  "required_vars_exist env sfx =
     list_all (\<lambda>key. env_contains env (key @ ''_'' @ sfx)) required_keys"

text \<open>\<open>var.replace('DEPLOYMENT_NAME_', '')\<close>.\<close>

definition extract_suffix :: "string \<Rightarrow> string" where
  "extract_suffix var = str_replace ''DEPLOYMENT_NAME_'' [] var"

text \<open>One iteration of \<open>for var in deployment_vars\<close>.\<close>

definition discover_step :: "environ \<Rightarrow> string \<Rightarrow> models \<Rightarrow> exn + models" where
  "discover_step env var ms =
     (let sfx = extract_suffix var;
          model_id = lower sfx
      in if required_vars_exist env sfx then
           (case env_getitem env var of
              Inl e \<Rightarrow> Inl e
            | Inr dep \<Rightarrow>
                Inr (AList.update model_id
                       \<lparr>name = env_get env (''MODEL_'' @ sfx) dep, suffix = sfx\<rparr> ms))
         else Inr ms)"

fun discover_loop :: "environ \<Rightarrow> string list \<Rightarrow> models \<Rightarrow> exn + models" where
  "discover_loop env [] ms = Inr ms"
| "discover_loop env (var # vars) ms =
     (case discover_step env var ms of
        Inl e \<Rightarrow> Inl e
      | Inr ms' \<Rightarrow> discover_loop env vars ms')"

definition deployment_vars :: "environ \<Rightarrow> string list" where
  "deployment_vars env = filter (\<lambda>v. startswith v ''DEPLOYMENT_NAME_'') (env_keys env)"

text \<open>\<open>_discover_models()\<close>, with \<open>os.environ\<close> as its argument.\<close>

definition discover_models :: "environ \<Rightarrow> exn + models" where
  "discover_models env = discover_loop env (deployment_vars env) []"

text \<open>\<open>get_model_names()\<close>, \<open>get_model_info(model_id)\<close> and \<open>get_env_variable_keys(model_id)\<close>
  read the module-level \<open>MODELS\<close>, passed here as an argument.\<close>

definition get_model_names :: "models \<Rightarrow> (string \<times> string) list" where
  "get_model_names MODELS = map (\<lambda>(key, model). (key, name model)) MODELS"

definition get_model_info :: "models \<Rightarrow> string \<Rightarrow> exn + model_info" where
  "get_model_info MODELS model_id =
     (case map_of MODELS model_id of
        Some model \<Rightarrow> Inr model
      | None \<Rightarrow> Inl (ValueError (''Model ID '' @ [CHR 0x27] @ model_id @ [CHR 0x27] @ '' not found in configuration'')))"

definition get_env_variable_keys :: "models \<Rightarrow> string \<Rightarrow> exn + (string \<times> string) list" where
  "get_env_variable_keys MODELS model_id =
     (case get_model_info MODELS model_id of
        Inl e \<Rightarrow> Inl e
      | Inr model \<Rightarrow>
          (let sfx = suffix model in
           Inr [(''endpoint'', ''ENDPOINT_'' @ sfx),
                (''api_key'', ''API_KEY_'' @ sfx),
                (''api_version'', ''API_VERSION_'' @ sfx),
                (''deployment_name'', ''DEPLOYMENT_NAME_'' @ sfx),
                (''api_type'', ''API_TYPE_'' @ sfx)]))"

text \<open>
  Two notions used to state properties of the scan: a scanned key \<open>var\<close> qualifies when
  the five required keys exist for the suffix extracted from it, and \<open>descriptor env var\<close>
  is the value the loop body then stores (\<open>env_get env var []\<close> is \<open>os.environ[var]\<close> for
  a key that is present).
\<close>

definition qualifies :: "environ \<Rightarrow> string \<Rightarrow> bool" where
  "qualifies env var = required_vars_exist env (extract_suffix var)"

definition descriptor :: "environ \<Rightarrow> string \<Rightarrow> model_info" where
  "descriptor env var =
     (let sfx = extract_suffix var
      in \<lparr>name = env_get env (''MODEL_'' @ sfx) (env_get env var []), suffix = sfx\<rparr>)"

section \<open>The receive loop (app.py, streamlit.py, script.py)\<close>

subsection \<open>Messages, effects and outcomes\<close>

text \<open>
  A message received from the session: its \<open>type\<close> tag, the \<open>delta\<close> carried by the two
  delta messages and the \<open>error\<close> payload carried by an error message (as the text that
  the f-string renders).
\<close>

record message =
  type :: string
  delta :: string
  error :: string

text \<open>
  What one call of \<open>client.recv()\<close> does: it returns a message or it raises. A session is
  the list of these results in the order the calls are made; when the list is used up
  the next \<open>recv()\<close> never returns.
\<close>

datatype recv_result = Delivers message | Fails exn

text \<open>
  The calls the code makes on its collaborators, recorded in the order they happen:
  \<open>client.recv()\<close>, the four operations on the audio stream, \<open>text_placeholder.markdown\<close>,
  \<open>st.error\<close>, \<open>print\<close> (with the text written to standard output), and the widgets of
  the audio panel: \<open>st.subheader\<close>, \<open>st.audio\<close> (data, format) and \<open>st.download_button\<close>
  (label, data, file name, mime type).
\<close>

datatype effect =
    Recv
  | StreamStart
  | StreamWrite "byte list"
  | StreamStop
  | StreamClose
  | Markdown string
  | StError string
  | Print string
  | Subheader string
  | Audio "byte list" string
  | DownloadButton string "byte list" string string

text \<open>
  The module bound to the name \<open>st\<close>. streamlit.py has \<open>import streamlit as st\<close>. app.py
  has \<open>import app as st\<close>: there \<open>st\<close> is the application module itself, which defines
  none of \<open>error\<close>, \<open>subheader\<close>, \<open>audio\<close> and \<open>download_button\<close>, so that looking one of them
  up raises \<open>AttributeError\<close>. \<open>st_call st attr eff\<close> is the call \<open>st.attr(...)\<close> whose effect,
  when the attribute exists, is \<open>eff\<close>.
\<close>

datatype st_module = Streamlit | App

definition st_call :: "st_module \<Rightarrow> string \<Rightarrow> effect \<Rightarrow> exn + effect list" where
  "st_call st attr eff =
     (case st of Streamlit \<Rightarrow> Inr [eff] | App \<Rightarrow> Inl (AttributeError attr))"

text \<open>How a call ends: it returns a value, it raises, or it never returns.\<close>

datatype 'a outcome = Returns 'a | Raises exn | Hangs

record assembly_state =
  transcript :: string
  audio_buffer :: "byte list"
  "done" :: bool

definition initial_state :: assembly_state where
  "initial_state = \<lparr>transcript = [], audio_buffer = [], done = False\<rparr>"

subsection \<open>base64.b64decode\<close>

text \<open>
  The decoder of the standard library in its default, non-strict mode: a \<open>str\<close> argument
  must be ASCII; characters outside the alphabet are skipped; decoding stops at the
  padding that completes a quad; input that ends inside a quad raises \<open>binascii.Error\<close>.
  The loop below takes the decoder as an argument and \<open>b64decode\<close> is what the code
  passes.
\<close>

definition b64_value :: "char \<Rightarrow> nat option" where
  "b64_value c =
     (let n = (of_char c :: nat) in
      if 65 \<le> n \<and> n \<le> 90 then Some (n - 65)
      else if 97 \<le> n \<and> n \<le> 122 then Some (n - 71)
      else if 48 \<le> n \<and> n \<le> 57 then Some (n + 4)
      else if n = 43 then Some 62
      else if n = 47 then Some 63
      else None)"

fun a2b_base64 :: "string \<Rightarrow> nat \<Rightarrow> nat \<Rightarrow> nat \<Rightarrow> byte list \<Rightarrow> exn + byte list" where
  "a2b_base64 [] quad_pos leftchar pads out =
     (if quad_pos \<noteq> 0 then Inl BinasciiError else Inr out)"
| "a2b_base64 (c # cs) quad_pos leftchar pads out =
     (if c = CHR ''='' then
        (if 2 \<le> quad_pos \<and> 4 \<le> quad_pos + (pads + 1) then Inr out
         else a2b_base64 cs quad_pos leftchar (if 2 \<le> quad_pos then pads + 1 else pads) out)
      else
        (case b64_value c of
           None \<Rightarrow> a2b_base64 cs quad_pos leftchar pads out
         | Some v \<Rightarrow>
             (if quad_pos = 0 then a2b_base64 cs 1 v 0 out
              else if quad_pos = 1 then
                a2b_base64 cs 2 (v mod 16) 0 (out @ [of_nat (leftchar * 4 + v div 16)])
              else if quad_pos = 2 then
                a2b_base64 cs 3 (v mod 4) 0 (out @ [of_nat (leftchar * 16 + v div 4)])
              else a2b_base64 cs 0 0 0 (out @ [of_nat (leftchar * 64 + v)]))))"

definition b64decode :: "string \<Rightarrow> exn + byte list" where
  "b64decode s =
     (if list_ex (\<lambda>c. 128 \<le> (of_char c :: nat)) s
      then Inl (ValueError ''string argument should contain only ASCII characters'')
      else a2b_base64 s 0 0 0 [])"

subsection \<open>Playback\<close>

text \<open>
  \<open>play_audio_chunk(audio_stream, buffer)\<close>: \<open>np.frombuffer(buffer, dtype=np.int16)\<close>
  raises \<open>ValueError\<close> when the buffer is not a whole number of 2-byte elements;
  otherwise the samples, which are the same bytes, are written to the stream.
\<close>

definition play_audio_chunk :: "byte list \<Rightarrow> exn + effect list" where
  "play_audio_chunk buffer =
     (if length buffer mod 2 \<noteq> 0
      then Inl (ValueError ''buffer size must be a multiple of element size'')
      else Inr [StreamWrite buffer])"

subsection \<open>The loop body\<close>

text \<open>
  The \<open>match message.type\<close> statement of \<open>process_llm_response\<close> (app.py and
  streamlit.py, which differ in the module \<open>st\<close>): the new state and the effects of the
  branch taken, or the exception raised inside it. In the \<open>error\<close> branch \<open>done = True\<close> is
  followed by \<open>st.error(...)\<close>.
\<close>

definition handle_message ::
  "st_module \<Rightarrow> (string \<Rightarrow> exn + byte list) \<Rightarrow> message \<Rightarrow> assembly_state \<Rightarrow>
   exn + assembly_state \<times> effect list"
where
  "handle_message st dec m s =
     (if type m = ''response.done'' then Inr (s\<lparr>done := True\<rparr>, [])
      else if type m = ''error'' then
        (case st_call st ''error'' (StError (''Error: '' @ error m)) of
           Inl e \<Rightarrow> Inl e
         | Inr shown \<Rightarrow> Inr (s\<lparr>done := True\<rparr>, shown))
      else if type m = ''response.audio_transcript.delta'' then
        (let t = transcript s @ delta m in Inr (s\<lparr>transcript := t\<rparr>, [Markdown t]))
      else if type m = ''response.audio.delta'' then
        (case dec (delta m) of
           Inl e \<Rightarrow> Inl e
         | Inr buffer \<Rightarrow>
             (case play_audio_chunk buffer of
                Inl e \<Rightarrow> Inl e
              | Inr played \<Rightarrow>
                  Inr (s\<lparr>audio_buffer := audio_buffer s @ buffer\<rparr>, played)))
      else Inr (s, []))"

text \<open>\<open>str(n)\<close> for a length.\<close>

fun str_nat :: "nat \<Rightarrow> string" where
  "str_nat n =
     (if n < 10 then [char_of (48 + n)]
      else str_nat (n div 10) @ [char_of (48 + n mod 10)])"

text \<open>
  The \<open>match\<close> statement of \<open>text_in_audio_out\<close> (script.py): no playback, and every
  branch but \<open>response.done\<close> prints a line.
\<close>

definition handle_message_script ::
  "(string \<Rightarrow> exn + byte list) \<Rightarrow> message \<Rightarrow> assembly_state \<Rightarrow> exn + assembly_state \<times> effect list"
where
  "handle_message_script dec m s =
     (if type m = ''response.done'' then Inr (s\<lparr>done := True\<rparr>, [])
      else if type m = ''error'' then
        Inr (s\<lparr>done := True\<rparr>, [Print (error m @ [CHR 0x0A])])
      else if type m = ''response.audio_transcript.delta'' then
        Inr (s\<lparr>transcript := transcript s @ delta m\<rparr>,
             [Print (''Transcript: '' @ delta m @ [CHR 0x0A])])
      else if type m = ''response.audio.delta'' then
        (case dec (delta m) of
           Inl e \<Rightarrow> Inl e
         | Inr buffer \<Rightarrow>
             Inr (s\<lparr>audio_buffer := audio_buffer s @ buffer\<rparr>,
                  [Print (''Received '' @ str_nat (length buffer) @ '' bytes of audio data.''
                          @ [CHR 0x0A])]))
      else Inr (s, [Print (''Received message of type: '' @ type m @ [CHR 0x0A])]))"

subsection \<open>The loop\<close>

text \<open>
  \<open>while not done: message = await client.recv(); match ...\<close> for either loop body \<open>h\<close>.
  The result is how the loop ended, the state it ended in, the effects in order and
  the part of the session that was never requested.
\<close>

fun receive_loop ::
  "(message \<Rightarrow> assembly_state \<Rightarrow> exn + assembly_state \<times> effect list) \<Rightarrow>
   recv_result list \<Rightarrow> assembly_state \<Rightarrow>
   unit outcome \<times> assembly_state \<times> effect list \<times> recv_result list"
where
  "receive_loop h [] s =
     (if done s then (Returns (), s, [], []) else (Hangs, s, [], []))"
| "receive_loop h (r # rs) s =
     (if done s then (Returns (), s, [], r # rs)
      else
        (case r of
           Fails e \<Rightarrow> (Raises e, s, [Recv], rs)
         | Delivers m \<Rightarrow>
             (case h m s of
                Inl e \<Rightarrow> (Raises e, s, [Recv], rs)
              | Inr (s', effs) \<Rightarrow>
                  (case receive_loop h rs s' of
                     (how, s'', later, rest) \<Rightarrow> (how, s'', Recv # effs @ later, rest)))))"

text \<open>
  \<open>process_llm_response(client, text_placeholder)\<close>: the stream is set up, the loop runs
  inside \<open>try\<close>, and \<open>finally\<close> stops and closes the stream when the loop returns or
  raises. The stream operations themselves are taken to succeed.
\<close>

definition process_llm_response ::
  "st_module \<Rightarrow> (string \<Rightarrow> exn + byte list) \<Rightarrow> recv_result list \<Rightarrow>
   (string \<times> byte list) outcome \<times> effect list \<times> recv_result list"
where
  "process_llm_response st dec session =
     (case receive_loop (handle_message st dec) session initial_state of
        (Returns u, s, tr, rest) \<Rightarrow>
          (Returns (transcript s, audio_buffer s),
           StreamStart # tr @ [StreamStop, StreamClose], rest)
      | (Raises e, s, tr, rest) \<Rightarrow>
          (Raises e, StreamStart # tr @ [StreamStop, StreamClose], rest)
      | (Hangs, s, tr, rest) \<Rightarrow> (Hangs, StreamStart # tr, rest))"

text \<open>
  The loop of \<open>text_in_audio_out\<close> (script.py) from its initial state; the function goes
  on to save \<open>audio_buffer\<close> and print \<open>transcript\<close>.
\<close>

definition text_in_audio_out_loop ::
  "(string \<Rightarrow> exn + byte list) \<Rightarrow> recv_result list \<Rightarrow>
   unit outcome \<times> assembly_state \<times> effect list \<times> recv_result list"
where
  "text_in_audio_out_loop dec session =
     receive_loop (handle_message_script dec) session initial_state"

section \<open>WAV files (app.py, streamlit.py, script.py)\<close>

subsection \<open>The container written by the wave module\<close>

text \<open>
  Modelled from the spec: the writer of the standard library's \<open>wave\<close> module, which
  \<open>save_to_wav_file\<close> calls, is not part of the repository. The file it produces is the
  RIFF/WAVE container of the specification: a \<open>fmt\<close> chunk describing PCM with the
  channel count, sample rate and bits per sample that were set, and a \<open>data\<close> chunk
  holding the bytes verbatim. The fields are laid out as \<open>Wave_write._write_header\<close>
  packs them, \<open>struct.pack('<L4s4sLHHLLHH4s', ...)\<close> followed by \<open>struct.pack('<L', ...)\<close>,
  and a value that does not fit its 16-bit or 32-bit field makes \<open>struct.pack\<close> raise.
\<close>

definition ascii_bytes :: "string \<Rightarrow> byte list" where
  "ascii_bytes s = map (\<lambda>c. of_nat (of_char c)) s"

text \<open>\<open>struct.pack('<H', n)\<close> and \<open>struct.pack('<L', n)\<close>.\<close>

definition pack_u16 :: "nat \<Rightarrow> exn + byte list" where
  "pack_u16 n =
     (if n < 2 ^ 16 then Inr [of_nat n, of_nat (n div 2 ^ 8)] else Inl StructError)"

definition pack_u32 :: "nat \<Rightarrow> exn + byte list" where
  "pack_u32 n =
     (if n < 2 ^ 32
      then Inr [of_nat n, of_nat (n div 2 ^ 8), of_nat (n div 2 ^ 16), of_nat (n div 2 ^ 24)]
      else Inl StructError)"

text \<open>The fields of one \<open>struct.pack\<close> call, in order; the first that fails raises.\<close>

fun pack_fields :: "(exn + byte list) list \<Rightarrow> exn + byte list" where
  "pack_fields [] = Inr []"
| "pack_fields (Inl e # fs) = Inl e"
| "pack_fields (Inr b # fs) =
     (case pack_fields fs of Inl e \<Rightarrow> Inl e | Inr bs \<Rightarrow> Inr (b @ bs))"

definition WAVE_FORMAT_PCM :: nat where
  "WAVE_FORMAT_PCM = 1"

definition write_header :: "nat \<Rightarrow> nat \<Rightarrow> nat \<Rightarrow> nat \<Rightarrow> exn + byte list" where
  "write_header nchannels sampwidth framerate datalength =
     pack_fields
       [Inr (ascii_bytes ''RIFF''),
        pack_u32 (36 + datalength),
        Inr (ascii_bytes ''WAVE''),
        Inr (ascii_bytes ''fmt ''),
        pack_u32 16,
        pack_u16 WAVE_FORMAT_PCM,
        pack_u16 nchannels,
        pack_u32 framerate,
        pack_u32 (nchannels * framerate * sampwidth),
        pack_u16 (nchannels * sampwidth),
        pack_u16 (sampwidth * 8),
        Inr (ascii_bytes ''data''),
        pack_u32 datalength]"

text \<open>
  \<open>writeframes(data)\<close> on a fresh writer, then \<open>close()\<close>: the header is written for the
  whole frames in \<open>data\<close>, the data follow, and when the byte count differs from the
  one announced the two length fields (at offsets 4 and 40) are patched.
\<close>

definition writeframes :: "nat \<Rightarrow> nat \<Rightarrow> nat \<Rightarrow> byte list \<Rightarrow> exn + byte list" where
  "writeframes nchannels sampwidth framerate data =
     (let nframes = length data div (sampwidth * nchannels);
          datalength = nframes * nchannels * sampwidth
      in case write_header nchannels sampwidth framerate datalength of
           Inl e \<Rightarrow> Inl e
         | Inr header \<Rightarrow>
             (if datalength \<noteq> length data then
                (case pack_fields [pack_u32 (36 + length data), pack_u32 (length data)] of
                   Inl e \<Rightarrow> Inl e
                 | Inr lens \<Rightarrow>
                     Inr (take 4 header @ take 4 lens @ take 32 (drop 8 header) @ drop 4 lens
                          @ data))
              else Inr (header @ data)))"

subsection \<open>Saving and presenting the audio\<close>

definition SAMPLE_RATE :: nat where
  "SAMPLE_RATE = 24000"

definition CHANNELS :: nat where
  "CHANNELS = 1"

text \<open>
  Files by name. Opening, writing and removing a file are taken to succeed; the state
  of a file whose writing raised is not described.
\<close>

type_synonym filesystem = "string \<rightharpoonup> byte list"

text \<open>
  \<open>save_to_wav_file(audio_data, filename=None)\<close>; \<open>timestamp\<close> is the rendering
  \<open>datetime.datetime.now().strftime("%Y%m%d_%H%M%S")\<close> of the clock. The function is the
  same in the three files (\<open>script.py\<close> writes the sample width as \<open>16 // 8\<close>).
\<close>

definition save_to_wav_file ::
  "filesystem \<Rightarrow> string \<Rightarrow> byte list \<Rightarrow> string option \<Rightarrow> exn + filesystem \<times> string"
where
  "save_to_wav_file fs timestamp audio_data filename =
     (let fname = (case filename of
                     None \<Rightarrow> ''audio_output_'' @ timestamp @ ''.wav''
                   | Some f \<Rightarrow> f)
      in case writeframes CHANNELS 2 SAMPLE_RATE audio_data of
           Inl e \<Rightarrow> Inl e
         | Inr contents \<Rightarrow> Inr (fs(fname \<mapsto> contents), fname))"

text \<open>
  \<open>create_audio_file(audio_buffer)\<close>; \<open>temp_filename\<close> is the name chosen by
  \<open>tempfile.NamedTemporaryFile(delete=False, suffix=".wav")\<close>, which creates the file
  empty. The result \<open>None\<close> is Python's \<open>None\<close>.
\<close>

definition create_audio_file ::
  "filesystem \<Rightarrow> string \<Rightarrow> string \<Rightarrow> byte list \<Rightarrow> exn + filesystem \<times> string option"
where
  "create_audio_file fs timestamp temp_filename audio_buf =
     (if audio_buf = [] then Inr (fs, None)
      else
        (case save_to_wav_file (fs(temp_filename \<mapsto> [])) timestamp audio_buf
                (Some temp_filename) of
           Inl e \<Rightarrow> Inl e
         | Inr (fs', filename) \<Rightarrow> Inr (fs', Some filename)))"

text \<open>
  \<open>display_audio_response(audio_file)\<close> (app.py, streamlit.py): nothing is shown for
  \<open>None\<close> (or an empty name); otherwise the heading is shown, the file is read, played,
  offered for download and removed. The widgets are attributes of \<open>st\<close>.
\<close>

definition display_audio_response ::
  "st_module \<Rightarrow> filesystem \<Rightarrow> string option \<Rightarrow> exn + filesystem \<times> effect list"
where
  "display_audio_response st fs audio_file =
     (case audio_file of
        None \<Rightarrow> Inr (fs, [])
      | Some f \<Rightarrow>
          (if f = [] then Inr (fs, [])
           else
             (case st_call st ''subheader'' (Subheader ''Audio Response'') of
                Inl e \<Rightarrow> Inl e
              | Inr heading \<Rightarrow>
                  (case fs f of
                     None \<Rightarrow> Inl (FileNotFoundError f)
                   | Some audio_bytes \<Rightarrow>
                       (case st_call st ''audio'' (Audio audio_bytes ''audio/wav'') of
                          Inl e \<Rightarrow> Inl e
                        | Inr player \<Rightarrow>
                            (case st_call st ''download_button''
                                    (DownloadButton ''Download Audio'' audio_bytes
                                       ''ai_response.wav'' ''audio/wav'') of
                               Inl e \<Rightarrow> Inl e
                             | Inr button \<Rightarrow>
                                 Inr (fs(f := None), heading @ player @ button)))))))"

subsection \<open>Reading a WAV file back\<close>

text \<open>
  What the reader of the \<open>wave\<close> module reports for a file in the canonical layout (the
  RIFF and WAVE tags, a 16-byte PCM \<open>fmt\<close> chunk, then the \<open>data\<close> chunk, with lengths
  that agree with the bytes present; another layout is not read): the parameters, the
  number of frames \<open>chunksize // framesize\<close>, where a frame is \<open>nchannels * sampwidth\<close>
  bytes and \<open>sampwidth = (bits + 7) // 8\<close>, and the bytes \<open>readframes(getnframes())\<close>
  returns, which are the whole frames of the data chunk. Numbers are little-endian.
\<close>

definition le_nat :: "byte list \<Rightarrow> nat" where
  "le_nat bs = foldr (\<lambda>b acc. unat b + 256 * acc) bs 0"

record wav_info =
  channels :: nat
  sample_rate :: nat
  bits_per_sample :: nat
  nframes :: nat
  frames :: "byte list"

definition read_wav :: "byte list \<Rightarrow> wav_info option" where
  "read_wav file =
     (if length file < 44 then None
      else if take 4 file \<noteq> ascii_bytes ''RIFF'' \<or>
              take 4 (drop 8 file) \<noteq> ascii_bytes ''WAVE'' \<or>
              take 4 (drop 12 file) \<noteq> ascii_bytes ''fmt '' \<or>
              le_nat (take 4 (drop 16 file)) \<noteq> 16 \<or>
              le_nat (take 2 (drop 20 file)) \<noteq> 1 \<or>
              take 4 (drop 36 file) \<noteq> ascii_bytes ''data'' then None
      else
        (let n = le_nat (take 4 (drop 40 file));
             nchannels = le_nat (take 2 (drop 22 file));
             bits = le_nat (take 2 (drop 34 file));
             sampwidth = (bits + 7) div 8;
             framesize = nchannels * sampwidth
         in if le_nat (take 4 (drop 4 file)) \<noteq> 36 + n \<or> length file \<noteq> 44 + n then None
            else if nchannels = 0 \<or> sampwidth = 0 then None
            else Some \<lparr>channels = nchannels,
                       sample_rate = le_nat (take 4 (drop 24 file)),
                       bits_per_sample = bits,
                       nframes = n div framesize,
                       frames = take (n div framesize * framesize) (drop 44 file)\<rparr>))"

text \<open>
  The 44 bytes that precede the data in a file written for mono, 16-bit, 24000 Hz
  audio of \<open>n\<close> bytes, with \<open>u32_bytes\<close> the four little-endian bytes of a number.
\<close>

definition u32_bytes :: "nat \<Rightarrow> byte list" where
  "u32_bytes n = [of_nat n, of_nat (n div 2 ^ 8), of_nat (n div 2 ^ 16), of_nat (n div 2 ^ 24)]"

definition canonical_header :: "nat \<Rightarrow> byte list" where
  "canonical_header n =
     [82, 73, 70, 70] @ u32_bytes (36 + n) @
     [87, 65, 86, 69, 102, 109, 116, 32, 16, 0, 0, 0, 1, 0, 1, 0,
      192, 93, 0, 0, 128, 187, 0, 0, 2, 0, 16, 0, 100, 97, 116, 97] @ u32_bytes n"

section \<open>Properties of the model registry\<close>

subsection \<open>The scan loop\<close>

lemma env_getitem_present:
  assumes "k \<in> set (env_keys env)"
  shows "env_getitem env k = Inr (env_get env k d)"
proof -
  from assms obtain v where "map_of env k = Some v"
    by (auto simp: env_keys_def dest!: weak_map_of_SomeI)
  then show ?thesis by (simp add: env_getitem_def env_get_def)
qed

lemma discover_step_present:
  assumes "var \<in> set (env_keys env)"
  shows "discover_step env var ms =
           Inr (if qualifies env var
                then AList.update (lower (extract_suffix var)) (descriptor env var) ms
                else ms)"
  using env_getitem_present [OF assms, of "[]"]
  by (simp add: discover_step_def qualifies_def descriptor_def Let_def)

lemma discover_loop_total:
  "set vars \<subseteq> set (env_keys env) \<Longrightarrow> \<exists>ms'. discover_loop env vars ms = Inr ms'"
  by (induction vars arbitrary: ms) (simp_all add: discover_step_present)



lemma discover_loop_origin:
  assumes "set vars \<subseteq> set (env_keys env)"
    and "discover_loop env vars ms = Inr ms'"
    and "map_of ms' m = Some info"
  shows "map_of ms m = Some info \<or>
         (\<exists>v \<in> set vars. qualifies env v \<and> m = lower (extract_suffix v) \<and> info = descriptor env v)"
  using assms
proof (induction vars arbitrary: ms)
  case Nil
  then show ?case by simp
next
  case (Cons v vars)
  then show ?case
    by (fastforce simp add: discover_step_present update_conv' split: if_splits)
qed

lemma discover_loop_keeps_keys:
  assumes "set vars \<subseteq> set (env_keys env)"
    and "discover_loop env vars ms = Inr ms'"
    and "map_of ms m \<noteq> None \<or> (\<exists>v \<in> set vars. qualifies env v \<and> lower (extract_suffix v) = m)"
  shows "map_of ms' m \<noteq> None"
  using assms
proof (induction vars arbitrary: ms)
  case Nil
  then show ?case by simp
next
  case (Cons v vars)
  from Cons.prems(1) have v: "v \<in> set (env_keys env)" and vars: "set vars \<subseteq> set (env_keys env)"
    by auto
  let ?ms1 = "if qualifies env v
              then AList.update (lower (extract_suffix v)) (descriptor env v) ms else ms"
  from Cons.prems(2) have loop: "discover_loop env vars ?ms1 = Inr ms'"
    by (simp add: discover_step_present [OF v])
  from Cons.prems(3)
  have "map_of ?ms1 m \<noteq> None \<or> (\<exists>w \<in> set vars. qualifies env w \<and> lower (extract_suffix w) = m)"
    by (auto simp: update_conv')
  from Cons.IH [OF vars loop this] show ?case .
qed

lemma discover_loop_distinct:
  assumes "set vars \<subseteq> set (env_keys env)"
    and "discover_loop env vars ms = Inr ms'"
    and "distinct (map fst ms)"
  shows "distinct (map fst ms')"
  using assms
proof (induction vars arbitrary: ms)
  case Nil
  then show ?case by simp
next
  case (Cons v vars)
  then show ?case
    by (simp add: discover_step_present distinct_update split: if_splits)
qed


lemma deployment_vars_subset: "set (deployment_vars env) \<subseteq> set (env_keys env)"
  by (auto simp: deployment_vars_def)


lemma required_vars_exist_iff:
  "required_vars_exist env sfx \<longleftrightarrow>
     env_contains env (''ENDPOINT_'' @ sfx) \<and> env_contains env (''API_KEY_'' @ sfx) \<and>
     env_contains env (''API_VERSION_'' @ sfx) \<and> env_contains env (''DEPLOYMENT_NAME_'' @ sfx) \<and>
     env_contains env (''API_TYPE_'' @ sfx)"
  by (simp add: required_vars_exist_def required_keys_def)

text \<open>The scan never raises: \<open>os.environ[var]\<close> is only read for keys the scan found.\<close>

lemma discover_models_no_error: "\<exists>ms. discover_models env = Inr ms"
  unfolding discover_models_def
  by (rule discover_loop_total [OF deployment_vars_subset])

text \<open>Every entry of the registry was stored by a qualifying scanned key.\<close>

lemma discover_models_entry:
  assumes "discover_models env = Inr ms"
    and "map_of ms model_id = Some info"
  shows "\<exists>var \<in> set (deployment_vars env).
           qualifies env var \<and> model_id = lower (extract_suffix var) \<and> info = descriptor env var"
  using discover_loop_origin
          [OF deployment_vars_subset assms(1) [unfolded discover_models_def] assms(2)]
  by simp

lemma discover_models_distinct:
  assumes "discover_models env = Inr ms"
  shows "distinct (map fst ms)"
  using discover_loop_distinct [OF deployment_vars_subset assms [unfolded discover_models_def]]
  by simp

subsection \<open>Discovery of complete and incomplete groups\<close>

text \<open>
  A suffix \<open>X\<close> that \<open>replace\<close> leaves alone (it has no occurrence of
  \<open>DEPLOYMENT_NAME_\<close> inside) and that has its five keys is discovered under the id
  \<open>lower X\<close>; a suffix lacking one of the five keys is never stored.
\<close>

lemma discover_includes_plain_suffix:
  assumes "required_vars_exist env X"
    and "extract_suffix (''DEPLOYMENT_NAME_'' @ X) = X"
  shows "\<exists>ms. discover_models env = Inr ms \<and> lower X \<in> set (map fst ms)"
proof -
  let ?v = "''DEPLOYMENT_NAME_'' @ X"
  from discover_models_no_error obtain ms where ms: "discover_models env = Inr ms"
    by blast
  from assms(1) have "?v \<in> set (env_keys env)"
    by (simp add: required_vars_exist_iff env_contains_def)
  then have "?v \<in> set (deployment_vars env)"
    by (simp add: deployment_vars_def startswith_def)
  moreover from assms have "qualifies env ?v" "lower (extract_suffix ?v) = lower X"
    by (simp_all add: qualifies_def)
  ultimately have "map_of ms (lower X) \<noteq> None"
    using discover_loop_keeps_keys
            [OF deployment_vars_subset ms [unfolded discover_models_def], of "lower X"]
    by blast
  then have "lower X \<in> set (map fst ms)"
    by (auto simp: map_of_eq_None_iff)
  with ms show ?thesis by blast
qed

lemma discover_excludes_incomplete:
  assumes "\<not> required_vars_exist env X"
    and "discover_models env = Inr ms"
    and "(model_id, info) \<in> set ms"
  shows "suffix info \<noteq> X"
proof -
  from discover_models_distinct [OF assms(2)] assms(3)
  have "map_of ms model_id = Some info" by simp
  from discover_models_entry [OF assms(2) this] assms(1) show ?thesis
    by (auto simp: qualifies_def descriptor_def Let_def)
qed

text \<open>
  C3. For every suffix \<open>X\<close> whose five keys are present the registry should hold the id
  \<open>lower X\<close>. The scan extracts the suffix with \<open>replace\<close>, which also deletes later
  occurrences of \<open>DEPLOYMENT_NAME_\<close>: for \<open>X = DEPLOYMENT_NAME_A\<close> all five keys are
  present, the scanned key \<open>DEPLOYMENT_NAME_DEPLOYMENT_NAME_A\<close> yields the suffix \<open>A\<close>,
  whose keys are absent, and the registry stays empty.
\<close>

theorem discover_drops_suffix_with_embedded_prefix:
  "required_vars_exist
     [(''ENDPOINT_DEPLOYMENT_NAME_A'', ''https://example''),
      (''API_KEY_DEPLOYMENT_NAME_A'', ''key''),
      (''API_VERSION_DEPLOYMENT_NAME_A'', ''v1''),
      (''DEPLOYMENT_NAME_DEPLOYMENT_NAME_A'', ''dep1''),
      (''API_TYPE_DEPLOYMENT_NAME_A'', ''azure'')] ''DEPLOYMENT_NAME_A'' \<and>
   discover_models
     [(''ENDPOINT_DEPLOYMENT_NAME_A'', ''https://example''),
      (''API_KEY_DEPLOYMENT_NAME_A'', ''key''),
      (''API_VERSION_DEPLOYMENT_NAME_A'', ''v1''),
      (''DEPLOYMENT_NAME_DEPLOYMENT_NAME_A'', ''dep1''),
      (''API_TYPE_DEPLOYMENT_NAME_A'', ''azure'')] = Inr []"
  by code_simp

subsection \<open>Display names\<close>

text \<open>
  When the only scanned key that yields the stored suffix \<open>X\<close> is \<open>DEPLOYMENT_NAME_X\<close>
  itself, the display name is the value of \<open>MODEL_X\<close> if that key exists and the value of
  \<open>DEPLOYMENT_NAME_X\<close> otherwise.
\<close>

lemma display_name_plain_suffix:
  assumes "discover_models env = Inr ms"
    and "map_of ms model_id = Some info"
    and "\<forall>v \<in> set (deployment_vars env).
           extract_suffix v = suffix info \<longrightarrow> v = ''DEPLOYMENT_NAME_'' @ suffix info"
  shows "name info =
           (case map_of env (''MODEL_'' @ suffix info) of
              Some friendly \<Rightarrow> friendly
            | None \<Rightarrow> env_get env (''DEPLOYMENT_NAME_'' @ suffix info) [])"
proof -
  from discover_models_entry [OF assms(1,2)]
  obtain v where v: "v \<in> set (deployment_vars env)" "info = descriptor env v"
    by blast
  from v(2) have sfx: "suffix info = extract_suffix v"
    by (simp add: descriptor_def Let_def)
  from bspec [OF assms(3) v(1)] sfx [symmetric]
  have veq: "v = ''DEPLOYMENT_NAME_'' @ suffix info"
    by (rule mp)
  have stored: "name info = env_get env (''MODEL_'' @ extract_suffix v) (env_get env v [])"
    using v(2) by (simp add: descriptor_def Let_def)
  have dep: "env_get env v [] = env_get env (''DEPLOYMENT_NAME_'' @ suffix info) []"
    by (rule arg_cong [where f = "\<lambda>k. env_get env k []", OF veq])
  from stored have "name info =
      env_get env (''MODEL_'' @ suffix info) (env_get env (''DEPLOYMENT_NAME_'' @ suffix info) [])"
    unfolding sfx [symmetric] dep .
  then show ?thesis
    by (simp add: env_get_def split: option.splits)
qed

text \<open>
  C6. A discovered model with suffix \<open>X\<close> and no \<open>MODEL_X\<close> key should be displayed under
  the value of \<open>DEPLOYMENT_NAME_X\<close>. Here the group \<open>A\<close> is complete with
  \<open>DEPLOYMENT_NAME_A = dep1\<close> and there is no \<open>MODEL_A\<close>; the key
  \<open>DEPLOYMENT_NAME_DEPLOYMENT_NAME_A\<close>, scanned later, is reduced by \<open>replace\<close> to the same
  suffix \<open>A\<close> and its value becomes the display name.
\<close>

theorem display_name_taken_from_other_key:
  "discover_models
     [(''ENDPOINT_A'', ''https://example''),
      (''API_KEY_A'', ''key''),
      (''API_VERSION_A'', ''v1''),
      (''DEPLOYMENT_NAME_A'', ''dep1''),
      (''API_TYPE_A'', ''azure''),
      (''DEPLOYMENT_NAME_DEPLOYMENT_NAME_A'', ''other'')]
   = Inr [(''a'', \<lparr>name = ''other'', suffix = ''A''\<rparr>)]"
  by code_simp

subsection \<open>Case collisions\<close>



subsection \<open>The registry invariant\<close>

text \<open>
  C10. For every model id in the discovered registry: the id is the lower-cased stored
  suffix, the stored suffix is the one extracted, with its case unchanged, from a
  scanned \<open>DEPLOYMENT_NAME_*\<close> key, \<open>get_env_variable_keys\<close> returns the five key names
  built from that suffix, and each of the five was present in the environment from
  which the registry was built.
\<close>

theorem registry_invariant:
  assumes "discover_models env = Inr ms"
    and "map_of ms model_id = Some info"
  shows "model_id = lower (suffix info) \<and>
         (\<exists>var \<in> set (deployment_vars env). suffix info = extract_suffix var) \<and>
         get_env_variable_keys ms model_id =
           Inr [(''endpoint'', ''ENDPOINT_'' @ suffix info),
                (''api_key'', ''API_KEY_'' @ suffix info),
                (''api_version'', ''API_VERSION_'' @ suffix info),
                (''deployment_name'', ''DEPLOYMENT_NAME_'' @ suffix info),
                (''api_type'', ''API_TYPE_'' @ suffix info)] \<and>
         env_contains env (''ENDPOINT_'' @ suffix info) \<and>
         env_contains env (''API_KEY_'' @ suffix info) \<and>
         env_contains env (''API_VERSION_'' @ suffix info) \<and>
         env_contains env (''DEPLOYMENT_NAME_'' @ suffix info) \<and>
         env_contains env (''API_TYPE_'' @ suffix info)"
proof -
  from discover_models_entry [OF assms]
  obtain v where v: "v \<in> set (deployment_vars env)" "qualifies env v"
    "model_id = lower (extract_suffix v)" "info = descriptor env v"
    by blast
  from v(4) have sfx: "suffix info = extract_suffix v"
    by (simp add: descriptor_def Let_def)
  from v(2) sfx have req: "required_vars_exist env (suffix info)"
    by (simp add: qualifies_def)
  have keys: "get_env_variable_keys ms model_id =
           Inr [(''endpoint'', ''ENDPOINT_'' @ suffix info),
                (''api_key'', ''API_KEY_'' @ suffix info),
                (''api_version'', ''API_VERSION_'' @ suffix info),
                (''deployment_name'', ''DEPLOYMENT_NAME_'' @ suffix info),
                (''api_type'', ''API_TYPE_'' @ suffix info)]"
    using assms(2) by (simp add: get_env_variable_keys_def get_model_info_def Let_def)
  have id: "model_id = lower (suffix info)"
    using v(3) sfx by simp
  have origin: "\<exists>var \<in> set (deployment_vars env). suffix info = extract_suffix var"
    using v(1) sfx by blast
  from id origin keys req [unfolded required_vars_exist_iff] show ?thesis
    by simp
qed

theorem registry_invariant_witness:
  "discover_models
     [(''ENDPOINT_FOO'', ''e1''), (''API_KEY_FOO'', ''k1''), (''API_VERSION_FOO'', ''v1''),
      (''DEPLOYMENT_NAME_FOO'', ''dep1''), (''API_TYPE_FOO'', ''t1''),
      (''MODEL_FOO'', ''Friendly Name'')]
     = Inr [(''foo'', \<lparr>name = ''Friendly Name'', suffix = ''FOO''\<rparr>)] \<and>
   ''foo'' = lower ''FOO'' \<and>
   get_env_variable_keys [(''foo'', \<lparr>name = ''Friendly Name'', suffix = ''FOO''\<rparr>)] ''foo'' =
     Inr [(''endpoint'', ''ENDPOINT_FOO''), (''api_key'', ''API_KEY_FOO''),
          (''api_version'', ''API_VERSION_FOO''), (''deployment_name'', ''DEPLOYMENT_NAME_FOO''),
          (''api_type'', ''API_TYPE_FOO'')] \<and>
   env_contains
     [(''ENDPOINT_FOO'', ''e1''), (''API_KEY_FOO'', ''k1''), (''API_VERSION_FOO'', ''v1''),
      (''DEPLOYMENT_NAME_FOO'', ''dep1''), (''API_TYPE_FOO'', ''t1''),
      (''MODEL_FOO'', ''Friendly Name'')] ''DEPLOYMENT_NAME_FOO''"
proof -
  let ?env = "[(''ENDPOINT_FOO'', ''e1''), (''API_KEY_FOO'', ''k1''), (''API_VERSION_FOO'', ''v1''),
      (''DEPLOYMENT_NAME_FOO'', ''dep1''), (''API_TYPE_FOO'', ''t1''),
      (''MODEL_FOO'', ''Friendly Name'')]"
  let ?info = "\<lparr>name = ''Friendly Name'', suffix = ''FOO''\<rparr>"
  have d: "discover_models ?env = Inr [(''foo'', ?info)]"
    by code_simp
  have m: "map_of [(''foo'', ?info)] ''foo'' = Some ?info"
    by simp
  have l: "lower ''FOO'' = ''foo''"
    by code_simp
  from registry_invariant [OF d m] d l show ?thesis
    by simp
qed

section \<open>Properties of the receive loop\<close>

subsection \<open>Composition and effects of the loop\<close>

lemma receive_loop_hangs_rest:
  "receive_loop h rs s = (Hangs, s', tr, rest) \<Longrightarrow> rest = [] \<and> \<not> done s'"
  by (induction rs arbitrary: s tr)
     (auto split: if_splits recv_result.splits sum.splits prod.splits)

lemma receive_loop_append:
  "receive_loop h pre s = (Hangs, s', tr, rest) \<Longrightarrow>
   receive_loop h (pre @ rs) s =
     (case receive_loop h rs s' of (how, s'', later, rest') \<Rightarrow> (how, s'', tr @ later, rest'))"
proof (induction pre arbitrary: s tr)
  case Nil
  then show ?case
    by (cases rs) (auto split: if_splits prod.splits)
next
  case (Cons r pre)
  then show ?case
    by (auto split: if_splits recv_result.splits sum.splits prod.splits)
qed

lemma handle_message_effects:
  "handle_message st dec m s = Inr (s', effs) \<Longrightarrow>
   StreamStart \<notin> set effs \<and> StreamStop \<notin> set effs \<and> StreamClose \<notin> set effs \<and> Recv \<notin> set effs"
  by (auto simp: handle_message_def play_audio_chunk_def st_call_def Let_def
            split: if_splits sum.splits st_module.splits)

lemma receive_loop_effects:
  "receive_loop (handle_message st dec) rs s = (how, s', tr, rest) \<Longrightarrow>
   StreamStart \<notin> set tr \<and> StreamStop \<notin> set tr \<and> StreamClose \<notin> set tr"
proof (induction rs arbitrary: s how s' tr rest)
  case Nil
  then show ?case by (auto split: if_splits)
next
  case (Cons r rs)
  show ?case
  proof (cases "done s")
    case True
    with Cons.prems show ?thesis by simp
  next
    case False
    show ?thesis
    proof (cases r)
      case (Fails e)
      with False Cons.prems show ?thesis by auto
    next
      case (Delivers m)
      show ?thesis
      proof (cases "handle_message st dec m s")
        case (Inl e)
        with False Delivers Cons.prems show ?thesis by auto
      next
        case (Inr p)
        obtain s1 effs where p: "p = (s1, effs)" by (cases p)
        obtain how1 s2 later rest1 where rl: "receive_loop (handle_message st dec) rs s1 = (how1, s2, later, rest1)"
          by (cases "receive_loop (handle_message st dec) rs s1") auto
        from False Delivers Inr p rl Cons.prems have tr: "tr = Recv # effs @ later"
          by simp
        from Cons.IH [OF rl] handle_message_effects [OF Inr [unfolded p]] tr
        show ?thesis by simp
      qed
    qed
  qed
qed

lemma receive_loop_done:
  "done s \<Longrightarrow> receive_loop h rs s = (Returns (), s, [], rs)"
  by (cases rs) simp_all

lemma receive_loop_deltas:
  assumes "\<not> done s"
    and "\<forall>m \<in> set ms. type m = ''response.audio_transcript.delta'' \<or> type m = ''response.audio.delta''"
    and "\<forall>m \<in> set ms. type m = ''response.audio.delta'' \<longrightarrow>
           dec (delta m) = Inr (pcm m) \<and> even (length (pcm m))"
  shows "\<exists>tr. receive_loop (handle_message st dec) (map Delivers ms) s =
           (Hangs,
            s\<lparr>transcript := transcript s @
                 concat (map delta (filter (\<lambda>m. type m = ''response.audio_transcript.delta'') ms)),
              audio_buffer := audio_buffer s @
                 concat (map pcm (filter (\<lambda>m. type m = ''response.audio.delta'') ms))\<rparr>,
            tr, []) \<and>
         (\<forall>e. StError e \<notin> set tr) \<and> length (filter (\<lambda>e. e = Recv) tr) = length ms"
  using assms
proof (induction ms arbitrary: s)
  case Nil
  then show ?case by simp
next
  case (Cons m ms)
  show ?case
  proof (cases "type m = ''response.audio_transcript.delta''")
    case True
    let ?s1 = "s\<lparr>transcript := transcript s @ delta m\<rparr>"
    have step: "handle_message st dec m s = Inr (?s1, [Markdown (transcript s @ delta m)])"
      using True by (simp add: handle_message_def Let_def)
    have "\<not> done ?s1" using Cons.prems(1) by simp
    from Cons.IH [OF this] Cons.prems(2,3)
    obtain tr where tr: "receive_loop (handle_message st dec) (map Delivers ms) ?s1 =
           (Hangs,
            ?s1\<lparr>transcript := transcript ?s1 @
                 concat (map delta (filter (\<lambda>m. type m = ''response.audio_transcript.delta'') ms)),
              audio_buffer := audio_buffer ?s1 @
                 concat (map pcm (filter (\<lambda>m. type m = ''response.audio.delta'') ms))\<rparr>,
            tr, [])"
      "\<forall>e. StError e \<notin> set tr" "length (filter (\<lambda>e. e = Recv) tr) = length ms"
      by auto
    from True have notA: "type m \<noteq> ''response.audio.delta''" by simp
    show ?thesis
      using Cons.prems(1) step tr True notA by simp
  next
    case False
    with Cons.prems(2) have A: "type m = ''response.audio.delta''" by simp
    with Cons.prems(3) have dec: "dec (delta m) = Inr (pcm m)" and ev: "even (length (pcm m))"
      by simp_all
    let ?s1 = "s\<lparr>audio_buffer := audio_buffer s @ pcm m\<rparr>"
    have step: "handle_message st dec m s = Inr (?s1, [StreamWrite (pcm m)])"
      using A dec ev by (simp add: handle_message_def play_audio_chunk_def)
    have "\<not> done ?s1" using Cons.prems(1) by simp
    from Cons.IH [OF this] Cons.prems(2,3)
    obtain tr where tr: "receive_loop (handle_message st dec) (map Delivers ms) ?s1 =
           (Hangs,
            ?s1\<lparr>transcript := transcript ?s1 @
                 concat (map delta (filter (\<lambda>m. type m = ''response.audio_transcript.delta'') ms)),
              audio_buffer := audio_buffer ?s1 @
                 concat (map pcm (filter (\<lambda>m. type m = ''response.audio.delta'') ms))\<rparr>,
            tr, [])"
      "\<forall>e. StError e \<notin> set tr" "length (filter (\<lambda>e. e = Recv) tr) = length ms"
      by auto
    show ?thesis
      using Cons.prems(1) step tr A False by simp
  qed
qed

lemma receive_loop_deltas_script:
  assumes "\<not> done s"
    and "\<forall>m \<in> set ms. type m = ''response.audio_transcript.delta'' \<or> type m = ''response.audio.delta''"
    and "\<forall>m \<in> set ms. type m = ''response.audio.delta'' \<longrightarrow> dec (delta m) = Inr (pcm m)"
  shows "\<exists>tr. receive_loop (handle_message_script dec) (map Delivers ms) s =
           (Hangs,
            s\<lparr>transcript := transcript s @
                 concat (map delta (filter (\<lambda>m. type m = ''response.audio_transcript.delta'') ms)),
              audio_buffer := audio_buffer s @
                 concat (map pcm (filter (\<lambda>m. type m = ''response.audio.delta'') ms))\<rparr>,
            tr, [])"
  using assms
proof (induction ms arbitrary: s)
  case Nil
  then show ?case by simp
next
  case (Cons m ms)
  show ?case
  proof (cases "type m = ''response.audio_transcript.delta''")
    case True
    let ?s1 = "s\<lparr>transcript := transcript s @ delta m\<rparr>"
    have step: "handle_message_script dec m s =
                  Inr (?s1, [Print (''Transcript: '' @ delta m @ [CHR 0x0A])])"
      using True by (simp add: handle_message_script_def)
    have "\<not> done ?s1" using Cons.prems(1) by simp
    from Cons.IH [OF this] Cons.prems(2,3)
    obtain tr where tr: "receive_loop (handle_message_script dec) (map Delivers ms) ?s1 =
           (Hangs,
            ?s1\<lparr>transcript := transcript ?s1 @
                 concat (map delta (filter (\<lambda>m. type m = ''response.audio_transcript.delta'') ms)),
              audio_buffer := audio_buffer ?s1 @
                 concat (map pcm (filter (\<lambda>m. type m = ''response.audio.delta'') ms))\<rparr>,
            tr, [])"
      by auto
    from True have notA: "type m \<noteq> ''response.audio.delta''" by simp
    show ?thesis
      using Cons.prems(1) step tr True notA by simp
  next
    case False
    with Cons.prems(2) have A: "type m = ''response.audio.delta''" by simp
    with Cons.prems(3) have dec: "dec (delta m) = Inr (pcm m)"
      by simp
    let ?s1 = "s\<lparr>audio_buffer := audio_buffer s @ pcm m\<rparr>"
    have step: "\<exists>effs. handle_message_script dec m s = Inr (?s1, effs)"
      using A dec by (simp add: handle_message_script_def)
    then obtain effs where effs: "handle_message_script dec m s = Inr (?s1, effs)" ..
    have "\<not> done ?s1" using Cons.prems(1) by simp
    from Cons.IH [OF this] Cons.prems(2,3)
    obtain tr where tr: "receive_loop (handle_message_script dec) (map Delivers ms) ?s1 =
           (Hangs,
            ?s1\<lparr>transcript := transcript ?s1 @
                 concat (map delta (filter (\<lambda>m. type m = ''response.audio_transcript.delta'') ms)),
              audio_buffer := audio_buffer ?s1 @
                 concat (map pcm (filter (\<lambda>m. type m = ''response.audio.delta'') ms))\<rparr>,
            tr, [])"
      by auto
    show ?thesis
      using Cons.prems(1) effs tr A False by simp
  qed
qed

subsection \<open>Unrecognised tags\<close>

text \<open>
  C7. A message whose tag is none of \<open>response.done\<close>, \<open>error\<close>,
  \<open>response.audio_transcript.delta\<close> and \<open>response.audio.delta\<close> leaves the transcript,
  the audio buffer and the done flag as they were and raises nothing (the script's
  loop prints the tag, the application's loop does nothing at all); the loop, still
  receiving, goes on to the next \<open>recv()\<close> in the same state.
\<close>

theorem unknown_tag_ignored:
  assumes "type m \<noteq> ''response.done''"
    and "type m \<noteq> ''error''"
    and "type m \<noteq> ''response.audio_transcript.delta''"
    and "type m \<noteq> ''response.audio.delta''"
  shows "handle_message st dec m s = Inr (s, []) \<and>
         handle_message_script dec m s =
           Inr (s, [Print (''Received message of type: '' @ type m @ [CHR 0x0A])]) \<and>
         (\<not> done s \<longrightarrow>
            receive_loop (handle_message st dec) (Delivers m # rs) s =
              (case receive_loop (handle_message st dec) rs s of
                 (how, s', later, rest) \<Rightarrow> (how, s', Recv # later, rest)))"
  using assms by (simp add: handle_message_def handle_message_script_def)

theorem unknown_tag_ignored_witness:
  "handle_message Streamlit b64decode \<lparr>type = ''session.created'', delta = [], error = []\<rparr>
     \<lparr>transcript = ''Hel'', audio_buffer = [65, 66], done = False\<rparr>
   = Inr (\<lparr>transcript = ''Hel'', audio_buffer = [65, 66], done = False\<rparr>, []) \<and>
   receive_loop (handle_message Streamlit b64decode)
     [Delivers \<lparr>type = ''session.created'', delta = [], error = []\<rparr>]
     \<lparr>transcript = ''Hel'', audio_buffer = [65, 66], done = False\<rparr>
   = (Hangs, \<lparr>transcript = ''Hel'', audio_buffer = [65, 66], done = False\<rparr>, [Recv], [])"
  using unknown_tag_ignored
    [where m = "\<lparr>type = ''session.created'', delta = [], error = []\<rparr>"
       and st = Streamlit and dec = b64decode
       and s = "\<lparr>transcript = ''Hel'', audio_buffer = [65, 66], done = False\<rparr>"
       and rs = "[]"]
  by simp

subsection \<open>Order of the deltas\<close>

text \<open>
  C1, as the code has it. Let the session deliver transcript deltas and audio deltas
  in any interleaving, each audio payload being decodable, and then \<open>response.done\<close>.
  The loop of \<open>text_in_audio_out\<close> ends with the transcript equal to the delta texts
  concatenated in arrival order and the audio buffer equal to the decoded payloads
  concatenated in arrival order. \<open>process_llm_response\<close> returns the same pair provided
  every decoded payload has an even number of bytes (it plays each chunk as 16-bit
  samples); it then displays no error, calls \<open>recv()\<close> once per message and requests
  nothing after \<open>response.done\<close>.
\<close>

theorem streaming_order_preserved:
  assumes "\<forall>m \<in> set ms. type m = ''response.audio_transcript.delta'' \<or>
                         type m = ''response.audio.delta''"
    and "\<forall>m \<in> set ms. type m = ''response.audio.delta'' \<longrightarrow> dec (delta m) = Inr (pcm m)"
    and "type fin = ''response.done''"
  shows "(\<exists>tr. text_in_audio_out_loop dec (map Delivers ms @ Delivers fin # rest) =
            (Returns (),
             \<lparr>transcript =
                concat (map delta (filter (\<lambda>m. type m = ''response.audio_transcript.delta'') ms)),
              audio_buffer =
                concat (map pcm (filter (\<lambda>m. type m = ''response.audio.delta'') ms)),
              done = True\<rparr>,
             tr, rest)) \<and>
         ((\<forall>m \<in> set ms. type m = ''response.audio.delta'' \<longrightarrow> even (length (pcm m))) \<longrightarrow>
          (\<exists>tr. process_llm_response st dec (map Delivers ms @ Delivers fin # rest) =
            (Returns
               (concat (map delta (filter (\<lambda>m. type m = ''response.audio_transcript.delta'') ms)),
                concat (map pcm (filter (\<lambda>m. type m = ''response.audio.delta'') ms))),
             tr, rest) \<and>
            (\<forall>e. StError e \<notin> set tr) \<and>
            length (filter (\<lambda>e. e = Recv) tr) = length ms + 1))"
proof (rule conjI)
  have nd: "\<not> done initial_state" by (simp add: initial_state_def)
  from receive_loop_deltas_script [OF nd assms(1,2)]
  obtain tr where tr: "receive_loop (handle_message_script dec) (map Delivers ms) initial_state =
      (Hangs,
       \<lparr>transcript =
          concat (map delta (filter (\<lambda>m. type m = ''response.audio_transcript.delta'') ms)),
        audio_buffer =
          concat (map pcm (filter (\<lambda>m. type m = ''response.audio.delta'') ms)),
        done = False\<rparr>, tr, [])"
    by (auto simp: initial_state_def)
  show "\<exists>tr. text_in_audio_out_loop dec (map Delivers ms @ Delivers fin # rest) =
            (Returns (),
             \<lparr>transcript =
                concat (map delta (filter (\<lambda>m. type m = ''response.audio_transcript.delta'') ms)),
              audio_buffer =
                concat (map pcm (filter (\<lambda>m. type m = ''response.audio.delta'') ms)),
              done = True\<rparr>,
             tr, rest)"
    unfolding text_in_audio_out_loop_def receive_loop_append [OF tr]
    using assms(3) by (simp add: handle_message_script_def receive_loop_done)
next
  show "(\<forall>m \<in> set ms. type m = ''response.audio.delta'' \<longrightarrow> even (length (pcm m))) \<longrightarrow>
          (\<exists>tr. process_llm_response st dec (map Delivers ms @ Delivers fin # rest) =
            (Returns
               (concat (map delta (filter (\<lambda>m. type m = ''response.audio_transcript.delta'') ms)),
                concat (map pcm (filter (\<lambda>m. type m = ''response.audio.delta'') ms))),
             tr, rest) \<and>
            (\<forall>e. StError e \<notin> set tr) \<and>
            length (filter (\<lambda>e. e = Recv) tr) = length ms + 1)"
  proof
    assume ev: "\<forall>m \<in> set ms. type m = ''response.audio.delta'' \<longrightarrow> even (length (pcm m))"
    have nd: "\<not> done initial_state" by (simp add: initial_state_def)
    from assms(2) ev
    have ok: "\<forall>m \<in> set ms. type m = ''response.audio.delta'' \<longrightarrow>
                dec (delta m) = Inr (pcm m) \<and> even (length (pcm m))"
      by simp
    from receive_loop_deltas [OF nd assms(1) ok]
    obtain tr where tr: "receive_loop (handle_message st dec) (map Delivers ms) initial_state =
        (Hangs,
         \<lparr>transcript =
            concat (map delta (filter (\<lambda>m. type m = ''response.audio_transcript.delta'') ms)),
          audio_buffer =
            concat (map pcm (filter (\<lambda>m. type m = ''response.audio.delta'') ms)),
          done = False\<rparr>, tr, [])"
      and quiet: "\<forall>e. StError e \<notin> set tr"
      and recvs: "length (filter (\<lambda>e. e = Recv) tr) = length ms"
      by (auto simp: initial_state_def)
    show "\<exists>tr. process_llm_response st dec (map Delivers ms @ Delivers fin # rest) =
            (Returns
               (concat (map delta (filter (\<lambda>m. type m = ''response.audio_transcript.delta'') ms)),
                concat (map pcm (filter (\<lambda>m. type m = ''response.audio.delta'') ms))),
             tr, rest) \<and>
            (\<forall>e. StError e \<notin> set tr) \<and>
            length (filter (\<lambda>e. e = Recv) tr) = length ms + 1"
      unfolding process_llm_response_def receive_loop_append [OF tr]
      using assms(3) quiet recvs by (simp add: handle_message_def receive_loop_done)
  qed
qed

theorem streaming_order_preserved_witness:
  "fst (process_llm_response Streamlit b64decode
     [Delivers \<lparr>type = ''response.audio_transcript.delta'', delta = ''Hel'', error = []\<rparr>,
      Delivers \<lparr>type = ''response.audio.delta'', delta = ''QUI='', error = []\<rparr>,
      Delivers \<lparr>type = ''response.audio_transcript.delta'', delta = ''lo'', error = []\<rparr>,
      Delivers \<lparr>type = ''response.audio.delta'', delta = ''Q0RFRg=='', error = []\<rparr>,
      Delivers \<lparr>type = ''response.done'', delta = [], error = []\<rparr>])
   = Returns (''Hello'', [65, 66, 67, 68, 69, 70]) \<and>
   fst (snd (text_in_audio_out_loop b64decode
     [Delivers \<lparr>type = ''response.audio_transcript.delta'', delta = ''Hel'', error = []\<rparr>,
      Delivers \<lparr>type = ''response.audio.delta'', delta = ''QUI='', error = []\<rparr>,
      Delivers \<lparr>type = ''response.audio_transcript.delta'', delta = ''lo'', error = []\<rparr>,
      Delivers \<lparr>type = ''response.audio.delta'', delta = ''Q0RFRg=='', error = []\<rparr>,
      Delivers \<lparr>type = ''response.done'', delta = [], error = []\<rparr>]))
   = \<lparr>transcript = ''Hello'', audio_buffer = [65, 66, 67, 68, 69, 70], done = True\<rparr>"
proof -
  let ?ms = "[\<lparr>type = ''response.audio_transcript.delta'', delta = ''Hel'', error = []\<rparr>,
      \<lparr>type = ''response.audio.delta'', delta = ''QUI='', error = []\<rparr>,
      \<lparr>type = ''response.audio_transcript.delta'', delta = ''lo'', error = []\<rparr>,
      \<lparr>type = ''response.audio.delta'', delta = ''Q0RFRg=='', error = []\<rparr>]"
  let ?fin = "\<lparr>type = ''response.done'', delta = [], error = []\<rparr>"
  let ?pcm = "\<lambda>m. if delta m = ''QUI='' then [65, 66] else [67, 68, 69, 70 :: byte]"
  have d1: "b64decode ''QUI='' = Inr [65, 66]"
    by code_simp
  have d2: "b64decode ''Q0RFRg=='' = Inr [67, 68, 69, 70]"
    by code_simp
  have tags: "\<forall>m \<in> set ?ms. type m = ''response.audio_transcript.delta'' \<or>
                type m = ''response.audio.delta''"
    by simp
  have decodes: "\<forall>m \<in> set ?ms. type m = ''response.audio.delta'' \<longrightarrow>
                   b64decode (delta m) = Inr (?pcm m)"
    by (simp add: d1 d2)
  have fin: "type ?fin = ''response.done''"
    by simp
  have evens: "\<forall>m \<in> set ?ms. type m = ''response.audio.delta'' \<longrightarrow> even (length (?pcm m))"
    by simp
  from streaming_order_preserved [OF tags decodes fin, where rest = "[]" and st = Streamlit] evens
  show ?thesis by auto
qed

text \<open>
  Without the condition on the chunk lengths the statement fails for
  \<open>process_llm_response\<close>: the payload \<open>QQ==\<close> decodes to one byte, playing it raises
  \<open>ValueError\<close>, and nothing is returned.
\<close>

theorem odd_chunk_counterexample:
  "b64decode ''QQ=='' = Inr [65] \<and>
   process_llm_response Streamlit b64decode
     [Delivers \<lparr>type = ''response.audio.delta'', delta = ''QQ=='', error = []\<rparr>,
      Delivers \<lparr>type = ''response.done'', delta = [], error = []\<rparr>]
   = (Raises (ValueError ''buffer size must be a multiple of element size''),
      [StreamStart, Recv, StreamStop, StreamClose],
      [Delivers \<lparr>type = ''response.done'', delta = [], error = []\<rparr>])"
  by code_simp

subsection \<open>The ways out of the loop\<close>

text \<open>A run hangs only on a session that holds nothing but non-terminal messages.\<close>

lemma receive_loop_hangs_only:
  "receive_loop (handle_message st dec) rs s = (Hangs, s', tr, rest) \<Longrightarrow>
   \<forall>r \<in> set rs. \<exists>m. r = Delivers m \<and> type m \<noteq> ''response.done'' \<and> type m \<noteq> ''error''"
proof (induction rs arbitrary: s s' tr rest)
  case Nil
  then show ?case by simp
next
  case (Cons r rs)
  from Cons.prems have nd: "\<not> done s"
    by (auto split: if_splits)
  show ?case
  proof (cases r)
    case (Fails e)
    with nd Cons.prems show ?thesis by simp
  next
    case (Delivers m)
    show ?thesis
    proof (cases "handle_message st dec m s")
      case (Inl e)
      with nd Delivers Cons.prems show ?thesis by simp
    next
      case (Inr p)
      obtain s1 effs where p: "p = (s1, effs)" by (cases p)
      obtain how1 s2 later rest1 where
        rl: "receive_loop (handle_message st dec) rs s1 = (how1, s2, later, rest1)"
        by (cases "receive_loop (handle_message st dec) rs s1") auto
      from nd Delivers Inr p rl Cons.prems have how1: "how1 = Hangs"
        by simp
      have live: "\<not> done s1"
        using rl how1 receive_loop_done [of s1 "handle_message st dec" rs] by auto
      have tag: "type m \<noteq> ''response.done'' \<and> type m \<noteq> ''error''"
        using Inr p live
        by (auto simp: handle_message_def st_call_def split: if_splits st_module.splits)
      from Cons.IH [OF rl [unfolded how1]] Delivers tag show ?thesis
        by simp
    qed
  qed
qed

text \<open>
  The three ways out, for a loop that is still receiving after the results \<open>pre\<close>: the
  next \<open>recv()\<close> raises, \<open>response.done\<close> arrives, or \<open>error\<close> arrives.
\<close>

lemma exit_by_failure:
  assumes "receive_loop (handle_message st dec) pre initial_state = (Hangs, s, tr, [])"
  shows "process_llm_response st dec (pre @ Fails e # after) =
           (Raises e, StreamStart # tr @ [Recv, StreamStop, StreamClose], after)"
proof -
  from receive_loop_hangs_rest [OF assms] have nd: "\<not> done s"
    by simp
  have last: "receive_loop (handle_message st dec) (Fails e # after) s =
                (Raises e, s, [Recv], after)"
    using nd by simp
  show ?thesis
    unfolding process_llm_response_def receive_loop_append [OF assms] last
    by simp
qed

lemma exit_by_done:
  assumes "receive_loop (handle_message st dec) pre initial_state = (Hangs, s, tr, [])"
    and "type m = ''response.done''"
  shows "process_llm_response st dec (pre @ Delivers m # after) =
           (Returns (transcript s, audio_buffer s),
            StreamStart # tr @ [Recv, StreamStop, StreamClose], after)"
proof -
  from receive_loop_hangs_rest [OF assms(1)] have nd: "\<not> done s"
    by simp
  have last: "receive_loop (handle_message st dec) (Delivers m # after) s =
                (Returns (), s\<lparr>done := True\<rparr>, [Recv], after)"
    using nd assms(2) by (simp add: handle_message_def receive_loop_done)
  show ?thesis
    unfolding process_llm_response_def receive_loop_append [OF assms(1)] last
    by simp
qed

lemma exit_by_error:
  assumes "receive_loop (handle_message st dec) pre initial_state = (Hangs, s, tr, [])"
    and "type m = ''error''"
  shows "process_llm_response st dec (pre @ Delivers m # after) =
           (case st of
              Streamlit \<Rightarrow>
                (Returns (transcript s, audio_buffer s),
                 StreamStart # tr @
                   [Recv, StError (''Error: '' @ error m), StreamStop, StreamClose],
                 after)
            | App \<Rightarrow>
                (Raises (AttributeError ''error''),
                 StreamStart # tr @ [Recv, StreamStop, StreamClose], after))"
proof -
  from receive_loop_hangs_rest [OF assms(1)] have nd: "\<not> done s"
    by simp
  show ?thesis
  proof (cases st)
    case Streamlit
    have last: "receive_loop (handle_message st dec) (Delivers m # after) s =
                  (Returns (), s\<lparr>done := True\<rparr>, [Recv, StError (''Error: '' @ error m)], after)"
      using nd assms(2) Streamlit
      by (simp add: handle_message_def st_call_def receive_loop_done)
    show ?thesis
      unfolding process_llm_response_def receive_loop_append [OF assms(1)] last
      using Streamlit by simp
  next
    case App
    have last: "receive_loop (handle_message st dec) (Delivers m # after) s =
                  (Raises (AttributeError ''error''), s, [Recv], after)"
      using nd assms(2) App
      by (simp add: handle_message_def st_call_def)
    show ?thesis
      unfolding process_llm_response_def receive_loop_append [OF assms(1)] last
      using App by simp
  qed
qed

subsection \<open>Release of the audio stream\<close>

text \<open>
  C8. The audio stream is started before the first \<open>recv()\<close> and is stopped and closed
  exactly once, as the last two effects, whenever \<open>process_llm_response\<close> ends. Only a
  run that never ends leaves the stream open, and a run never ends only when the
  session holds no failing \<open>recv()\<close>, no \<open>response.done\<close> and no \<open>error\<close>. On each way out
  of a loop that is still receiving, the stream is released right after the last
  \<open>recv()\<close>: when that \<open>recv()\<close> raises (the exception is passed on), when it delivers
  \<open>response.done\<close> (normal return), and when it delivers \<open>error\<close> (normal return after
  \<open>st.error\<close> in streamlit.py; in app.py, where \<open>st\<close> has no \<open>error\<close>, by the
  \<open>AttributeError\<close>).
\<close>

theorem sink_released_on_every_exit:
  "(\<exists>how body rest.
      process_llm_response st dec session =
        (how, StreamStart # body @ (if how = Hangs then [] else [StreamStop, StreamClose]), rest) \<and>
      StreamStart \<notin> set body \<and> StreamStop \<notin> set body \<and> StreamClose \<notin> set body \<and>
      (how = Hangs \<longrightarrow>
         rest = [] \<and>
         (\<forall>r \<in> set session.
            \<exists>m. r = Delivers m \<and> type m \<noteq> ''response.done'' \<and> type m \<noteq> ''error''))) \<and>
   (\<forall>pre s tr after e m.
      receive_loop (handle_message st dec) pre initial_state = (Hangs, s, tr, []) \<longrightarrow>
        (session = pre @ Fails e # after \<longrightarrow>
           process_llm_response st dec session =
             (Raises e, StreamStart # tr @ [Recv, StreamStop, StreamClose], after)) \<and>
        (session = pre @ Delivers m # after \<and> type m = ''response.done'' \<longrightarrow>
           process_llm_response st dec session =
             (Returns (transcript s, audio_buffer s),
              StreamStart # tr @ [Recv, StreamStop, StreamClose], after)) \<and>
        (session = pre @ Delivers m # after \<and> type m = ''error'' \<longrightarrow>
           process_llm_response st dec session =
             (case st of
                Streamlit \<Rightarrow>
                  (Returns (transcript s, audio_buffer s),
                   StreamStart # tr @
                     [Recv, StError (''Error: '' @ error m), StreamStop, StreamClose],
                   after)
              | App \<Rightarrow>
                  (Raises (AttributeError ''error''),
                   StreamStart # tr @ [Recv, StreamStop, StreamClose], after))))"
proof (rule conjI)
  obtain how s tr rest where
    rl: "receive_loop (handle_message st dec) session initial_state = (how, s, tr, rest)"
    by (cases "receive_loop (handle_message st dec) session initial_state") auto
  from receive_loop_effects [OF rl]
  have body: "StreamStart \<notin> set tr \<and> StreamStop \<notin> set tr \<and> StreamClose \<notin> set tr" .
  show "\<exists>how body rest.
      process_llm_response st dec session =
        (how, StreamStart # body @ (if how = Hangs then [] else [StreamStop, StreamClose]), rest) \<and>
      StreamStart \<notin> set body \<and> StreamStop \<notin> set body \<and> StreamClose \<notin> set body \<and>
      (how = Hangs \<longrightarrow>
         rest = [] \<and>
         (\<forall>r \<in> set session.
            \<exists>m. r = Delivers m \<and> type m \<noteq> ''response.done'' \<and> type m \<noteq> ''error''))"
  proof (cases how)
    case (Returns u)
    with rl body show ?thesis by (simp add: process_llm_response_def)
  next
    case (Raises e)
    with rl body show ?thesis by (simp add: process_llm_response_def)
  next
    case Hangs
    from rl Hangs receive_loop_hangs_rest have "rest = []"
      by blast
    moreover from rl Hangs receive_loop_hangs_only
    have "\<forall>r \<in> set session.
            \<exists>m. r = Delivers m \<and> type m \<noteq> ''response.done'' \<and> type m \<noteq> ''error''"
      by blast
    ultimately show ?thesis
      using rl body Hangs by (simp add: process_llm_response_def)
  qed
next
  show "\<forall>pre s tr after e m.
      receive_loop (handle_message st dec) pre initial_state = (Hangs, s, tr, []) \<longrightarrow>
        (session = pre @ Fails e # after \<longrightarrow>
           process_llm_response st dec session =
             (Raises e, StreamStart # tr @ [Recv, StreamStop, StreamClose], after)) \<and>
        (session = pre @ Delivers m # after \<and> type m = ''response.done'' \<longrightarrow>
           process_llm_response st dec session =
             (Returns (transcript s, audio_buffer s),
              StreamStart # tr @ [Recv, StreamStop, StreamClose], after)) \<and>
        (session = pre @ Delivers m # after \<and> type m = ''error'' \<longrightarrow>
           process_llm_response st dec session =
             (case st of
                Streamlit \<Rightarrow>
                  (Returns (transcript s, audio_buffer s),
                   StreamStart # tr @
                     [Recv, StError (''Error: '' @ error m), StreamStop, StreamClose],
                   after)
              | App \<Rightarrow>
                  (Raises (AttributeError ''error''),
                   StreamStart # tr @ [Recv, StreamStop, StreamClose], after)))"
    using exit_by_failure [of st dec] exit_by_done [of st dec] exit_by_error [of st dec]
    by blast
qed

theorem sink_released_on_every_exit_witness:
  "process_llm_response Streamlit b64decode
     [Delivers \<lparr>type = ''response.audio_transcript.delta'', delta = ''x'', error = []\<rparr>,
      Fails (TransportError ''connection closed'')]
   = (Raises (TransportError ''connection closed''),
      [StreamStart, Recv, Markdown ''x'', Recv, StreamStop, StreamClose], []) \<and>
   process_llm_response Streamlit b64decode
     [Delivers \<lparr>type = ''response.audio_transcript.delta'', delta = ''x'', error = []\<rparr>,
      Delivers \<lparr>type = ''response.done'', delta = [], error = []\<rparr>]
   = (Returns (''x'', []),
      [StreamStart, Recv, Markdown ''x'', Recv, StreamStop, StreamClose], []) \<and>
   process_llm_response Streamlit b64decode
     [Delivers \<lparr>type = ''response.audio_transcript.delta'', delta = ''x'', error = []\<rparr>,
      Delivers \<lparr>type = ''error'', delta = [], error = ''boom''\<rparr>]
   = (Returns (''x'', []),
      [StreamStart, Recv, Markdown ''x'', Recv, StError ''Error: boom'', StreamStop, StreamClose],
      []) \<and>
   process_llm_response App b64decode
     [Delivers \<lparr>type = ''response.audio_transcript.delta'', delta = ''x'', error = []\<rparr>,
      Delivers \<lparr>type = ''error'', delta = [], error = ''boom''\<rparr>]
   = (Raises (AttributeError ''error''),
      [StreamStart, Recv, Markdown ''x'', Recv, StreamStop, StreamClose], [])"
proof -
  let ?x = "\<lparr>type = ''response.audio_transcript.delta'', delta = ''x'', error = []\<rparr>"
  let ?fin = "\<lparr>type = ''response.done'', delta = [], error = []\<rparr>"
  let ?err = "\<lparr>type = ''error'', delta = [], error = ''boom''\<rparr>"
  let ?s = "\<lparr>transcript = ''x'', audio_buffer = [], done = False\<rparr>"
  have pre: "receive_loop (handle_message Streamlit b64decode) [Delivers ?x] initial_state
               = (Hangs, ?s, [Recv, Markdown ''x''], [])"
    by code_simp
  have pre_app: "receive_loop (handle_message App b64decode) [Delivers ?x] initial_state
               = (Hangs, ?s, [Recv, Markdown ''x''], [])"
    by code_simp
  have tags: "type ?fin = ''response.done''" "type ?err = ''error''"
    by simp_all
  have a: "process_llm_response Streamlit b64decode
             ([Delivers ?x] @ Fails (TransportError ''connection closed'') # []) =
           (Raises (TransportError ''connection closed''),
            StreamStart # [Recv, Markdown ''x''] @ [Recv, StreamStop, StreamClose], [])"
    using sink_released_on_every_exit
            [where st = Streamlit and dec = b64decode
               and session = "[Delivers ?x] @ Fails (TransportError ''connection closed'') # []"]
          pre
    by blast
  have b: "process_llm_response Streamlit b64decode ([Delivers ?x] @ Delivers ?fin # []) =
           (Returns (transcript ?s, audio_buffer ?s),
            StreamStart # [Recv, Markdown ''x''] @ [Recv, StreamStop, StreamClose], [])"
    using sink_released_on_every_exit
            [where st = Streamlit and dec = b64decode
               and session = "[Delivers ?x] @ Delivers ?fin # []"]
          pre tags(1)
    by blast
  have c: "process_llm_response Streamlit b64decode ([Delivers ?x] @ Delivers ?err # []) =
           (case Streamlit of
              Streamlit \<Rightarrow>
                (Returns (transcript ?s, audio_buffer ?s),
                 StreamStart # [Recv, Markdown ''x''] @
                   [Recv, StError (''Error: '' @ error ?err), StreamStop, StreamClose], [])
            | App \<Rightarrow>
                (Raises (AttributeError ''error''),
                 StreamStart # [Recv, Markdown ''x''] @ [Recv, StreamStop, StreamClose], []))"
    using sink_released_on_every_exit
            [where st = Streamlit and dec = b64decode
               and session = "[Delivers ?x] @ Delivers ?err # []"]
          pre tags(2)
    by blast
  have d: "process_llm_response App b64decode ([Delivers ?x] @ Delivers ?err # []) =
           (case App of
              Streamlit \<Rightarrow>
                (Returns (transcript ?s, audio_buffer ?s),
                 StreamStart # [Recv, Markdown ''x''] @
                   [Recv, StError (''Error: '' @ error ?err), StreamStop, StreamClose], [])
            | App \<Rightarrow>
                (Raises (AttributeError ''error''),
                 StreamStart # [Recv, Markdown ''x''] @ [Recv, StreamStop, StreamClose], []))"
    using sink_released_on_every_exit
            [where st = App and dec = b64decode
               and session = "[Delivers ?x] @ Delivers ?err # []"]
          pre_app tags(2)
    by blast
  from a b c d show ?thesis by simp
qed

subsection \<open>Terminal messages\<close>

text \<open>
  C2, as the code has it. When an \<open>error\<close> message arrives while the loop is still
  receiving (the results before it were all consumed without ending the loop), the
  loop ends at that message: the stream is stopped and closed and the run ends
  there. After the terminal message, \<open>error\<close> or \<open>response.done\<close>, no further \<open>recv()\<close> is
  made: the rest of the session is untouched. In streamlit.py the payload is displayed
  with \<open>st.error\<close> and \<open>process_llm_response\<close> returns, as an ordinary result, the
  transcript and the audio accumulated so far.
\<close>

theorem terminal_message_ends_loop:
  assumes "receive_loop (handle_message st dec) pre initial_state = (Hangs, s, tr, [])"
    and "type m = ''error'' \<or> type m = ''response.done''"
  shows "\<exists>how shown.
           process_llm_response st dec (pre @ Delivers m # rest) =
             (how, StreamStart # tr @ Recv # shown @ [StreamStop, StreamClose], rest) \<and>
           how \<noteq> Hangs \<and> Recv \<notin> set shown \<and>
           (st = Streamlit \<or> type m = ''response.done'' \<longrightarrow>
              how = Returns (transcript s, audio_buffer s) \<and>
              shown = (if type m = ''error'' then [StError (''Error: '' @ error m)] else []))"
proof (cases "type m = ''response.done''")
  case True
  from exit_by_done [OF assms(1) True, of rest] True show ?thesis
    by simp
next
  case False
  with assms(2) have err: "type m = ''error''" by simp
  show ?thesis
  proof (cases st)
    case Streamlit
    with exit_by_error [OF assms(1) err, of rest] err show ?thesis
      by simp
  next
    case App
    with exit_by_error [OF assms(1) err, of rest] False show ?thesis
      by simp
  qed
qed

theorem terminal_message_ends_loop_witness:
  "process_llm_response Streamlit b64decode
     ([Delivers \<lparr>type = ''response.audio_transcript.delta'', delta = ''x'', error = []\<rparr>] @
      Delivers \<lparr>type = ''error'', delta = [], error = ''boom''\<rparr> #
      [Delivers \<lparr>type = ''response.audio_transcript.delta'', delta = ''late'', error = []\<rparr>])
   = (Returns (''x'', []),
      [StreamStart, Recv, Markdown ''x'', Recv, StError ''Error: boom'', StreamStop, StreamClose],
      [Delivers \<lparr>type = ''response.audio_transcript.delta'', delta = ''late'', error = []\<rparr>])"
proof -
  have pre: "receive_loop (handle_message Streamlit b64decode)
      [Delivers \<lparr>type = ''response.audio_transcript.delta'', delta = ''x'', error = []\<rparr>]
      initial_state
    = (Hangs, \<lparr>transcript = ''x'', audio_buffer = [], done = False\<rparr>, [Recv, Markdown ''x''], [])"
    by code_simp
  have tag: "type \<lparr>type = ''error'', delta = [], error = ''boom''\<rparr> = ''error'' \<or>
             type \<lparr>type = ''error'', delta = [], error = ''boom''\<rparr> = ''response.done''"
    by simp
  from terminal_message_ends_loop [OF pre tag] show ?thesis
    by auto
qed

text \<open>
  The result is not a protocol error carrying the payload. In streamlit.py the run
  below returns normally, and what it returns is what it returns when \<open>response.done\<close>
  arrives in place of the error; in app.py it raises the \<open>AttributeError\<close> of the lookup
  \<open>st.error\<close>.
\<close>

theorem error_result_counterexample:
  "fst (process_llm_response Streamlit b64decode
     [Delivers \<lparr>type = ''response.audio_transcript.delta'', delta = ''x'', error = []\<rparr>,
      Delivers \<lparr>type = ''error'', delta = [], error = ''boom''\<rparr>])
   = Returns (''x'', []) \<and>
   fst (process_llm_response Streamlit b64decode
     [Delivers \<lparr>type = ''response.audio_transcript.delta'', delta = ''x'', error = []\<rparr>,
      Delivers \<lparr>type = ''response.done'', delta = [], error = []\<rparr>])
   = Returns (''x'', []) \<and>
   fst (process_llm_response App b64decode
     [Delivers \<lparr>type = ''response.audio_transcript.delta'', delta = ''x'', error = []\<rparr>,
      Delivers \<lparr>type = ''error'', delta = [], error = ''boom''\<rparr>])
   = Raises (AttributeError ''error'')"
  by code_simp

section \<open>Properties of the WAV serialization\<close>

subsection \<open>The header written and read back\<close>

lemma ascii_tags:
  "ascii_bytes ''RIFF'' = [82, 73, 70, 70]"
  "ascii_bytes ''WAVE'' = [87, 65, 86, 69]"
  "ascii_bytes ''fmt '' = [102, 109, 116, 32]"
  "ascii_bytes ''data'' = [100, 97, 116, 97]"
  by (simp_all add: ascii_bytes_def)

lemma pack_u32_ok: "n < 2 ^ 32 \<Longrightarrow> pack_u32 n = Inr (u32_bytes n)"
  by (simp add: pack_u32_def u32_bytes_def)

lemma pack_u32_fails: "2 ^ 32 \<le> n \<Longrightarrow> pack_u32 n = Inl StructError"
  by (simp add: pack_u32_def)

lemma pack_consts:
  "pack_u32 16 = Inr [16, 0, 0, 0]"
  "pack_u16 1 = Inr [1, 0]"
  "pack_u16 (Suc 0) = Inr [1, 0]"
  "pack_u32 24000 = Inr [192, 93, 0, 0]"
  "pack_u32 48000 = Inr [128, 187, 0, 0]"
  "pack_u16 2 = Inr [2, 0]"
  "pack_u16 16 = Inr [16, 0]"
  by (simp_all add: pack_u32_def pack_u16_def)

lemma write_header_canonical:
  assumes "36 + n < 2 ^ 32"
  shows "write_header 1 2 24000 n = Inr (canonical_header n)"
proof -
  from assms have a: "pack_u32 (36 + n) = Inr (u32_bytes (36 + n))" and b: "pack_u32 n = Inr (u32_bytes n)"
    by (simp_all add: pack_u32_ok)
  show ?thesis
    by (simp add: write_header_def a b ascii_tags pack_consts WAVE_FORMAT_PCM_def canonical_header_def)
qed

lemma write_header_fails:
  assumes "2 ^ 32 \<le> 36 + n"
  shows "write_header 1 2 24000 n = Inl StructError"
  using pack_u32_fails [OF assms] by (simp add: write_header_def)

lemma length_u32_bytes: "length (u32_bytes n) = 4"
  by (simp add: u32_bytes_def)

lemma split_u32:
  fixes n :: nat
  assumes "n < 4294967296"
  shows "n mod 256 + 256 * (n div 256 mod 256 + 256 * (n div 65536 mod 256 +
           256 * (n div 16777216 mod 256))) = n"
proof -
  define q1 where "q1 = n div 256"
  define q2 where "q2 = q1 div 256"
  define q3 where "q3 = q2 div 256"
  have d2: "n div 65536 = q2"
    unfolding q2_def q1_def by (simp add: div_mult2_eq)
  have d3: "n div 16777216 = q3"
    unfolding q3_def q2_def q1_def by (simp add: div_mult2_eq)
  from assms have "q3 < 256"
    unfolding d3 [symmetric] by (simp add: less_mult_imp_div_less)
  then have m3: "q3 mod 256 = q3"
    by simp
  have e0: "n mod 256 + 256 * q1 = n"
    unfolding q1_def by simp
  have e1: "q1 mod 256 + 256 * q2 = q1"
    unfolding q2_def by simp
  have e2: "q2 mod 256 + 256 * q3 = q2"
    unfolding q3_def by simp
  have "n mod 256 + 256 * (q1 mod 256 + 256 * (q2 mod 256 + 256 * (q3 mod 256))) = n"
    unfolding m3 e2 e1 e0 ..
  then show ?thesis
    unfolding d2 d3 q1_def .
qed

lemma le_nat_u32_bytes:
  assumes "n < 2 ^ 32"
  shows "le_nat (u32_bytes n) = n"
proof -
  have "le_nat (u32_bytes n) =
          n mod 256 + 256 * (n div 256 mod 256 + 256 * (n div 65536 mod 256 +
            256 * (n div 16777216 mod 256)))"
    by (simp add: le_nat_def u32_bytes_def unat_of_nat)
  also have "\<dots> = n"
    using assms by (intro split_u32) simp
  finally show ?thesis .
qed


lemma header_segments:
  "length (canonical_header n) = 44"
  "take 4 (canonical_header n) = [82, 73, 70, 70]"
  "take 4 (drop 4 (canonical_header n)) = u32_bytes (36 + n)"
  "take 4 (drop 8 (canonical_header n)) = [87, 65, 86, 69]"
  "take 4 (drop 12 (canonical_header n)) = [102, 109, 116, 32]"
  "take 4 (drop 16 (canonical_header n)) = [16, 0, 0, 0]"
  "take 2 (drop 20 (canonical_header n)) = [1, 0]"
  "take 2 (drop 22 (canonical_header n)) = [1, 0]"
  "take 4 (drop 24 (canonical_header n)) = [192, 93, 0, 0]"
  "take 2 (drop 34 (canonical_header n)) = [16, 0]"
  "take 4 (drop 36 (canonical_header n)) = [100, 97, 116, 97]"
  "drop 40 (canonical_header n) = u32_bytes n"
  by (simp_all add: canonical_header_def u32_bytes_def)

lemma le_nat_consts:
  "le_nat [16, 0, 0, 0] = 16"
  "le_nat [1, 0] = Suc 0"
  "le_nat [192, 93, 0, 0] = 24000"
  "le_nat [16, 0] = 16"
  by (simp_all add: le_nat_def)

lemma read_wav_canonical:
  assumes "36 + length b < 2 ^ 32"
  shows "read_wav (canonical_header (length b) @ b) =
           Some \<lparr>channels = 1, sample_rate = 24000, bits_per_sample = 16,
                 nframes = length b div 2, frames = take (length b div 2 * 2) b\<rparr>"
proof -
  from assms have n: "length b < 2 ^ 32" by simp
  show ?thesis
    by (simp add: read_wav_def header_segments ascii_tags le_nat_consts length_u32_bytes
          le_nat_u32_bytes [OF assms] le_nat_u32_bytes [OF n] Let_def)
qed

lemma whole_frames:
  "even (length b) \<Longrightarrow> take (length b div 2 * 2) b = b"
  by (simp add: dvd_div_mult_self)

lemma writeframes_canonical:
  assumes "36 + length b < 2 ^ 32"
  shows "writeframes 1 2 24000 b = Inr (canonical_header (length b) @ b)"
proof -
  let ?d = "length b div 2 * 2"
  have le: "?d \<le> length b" by simp
  with assms have "36 + ?d < 2 ^ 32" by simp
  from write_header_canonical [OF this]
  have hdr: "write_header 1 2 24000 ?d = Inr (canonical_header ?d)" .
  from assms have p1: "pack_u32 (36 + length b) = Inr (u32_bytes (36 + length b))"
    by (simp add: pack_u32_ok)
  from assms have p2: "pack_u32 (length b) = Inr (u32_bytes (length b))"
    by (simp add: pack_u32_ok)
  show ?thesis
  proof (cases "?d = length b")
    case True
    with hdr show ?thesis
      by (simp add: writeframes_def Let_def)
  next
    case False
    with hdr p1 p2 show ?thesis
      by (simp add: writeframes_def Let_def canonical_header_def u32_bytes_def)
  qed
qed

lemma writeframes_too_long:
  assumes "2 ^ 32 \<le> 36 + length b"
  shows "writeframes 1 2 24000 b = Inl StructError"
proof (cases "2 ^ 32 \<le> 36 + length b div 2 * 2")
  case True
  from write_header_fails [OF this] show ?thesis
    by (simp add: writeframes_def Let_def)
next
  case False
  then have small: "36 + length b div 2 * 2 < 2 ^ 32" by simp
  with assms have ne: "length b div 2 * 2 \<noteq> length b" by auto
  from write_header_canonical [OF small] pack_u32_fails [OF assms] ne show ?thesis
    by (simp add: writeframes_def Let_def)
qed

subsection \<open>Round trip and the empty buffer\<close>


lemma save_to_wav_file_canonical:
  assumes "length b + 36 < 2 ^ 32"
  shows "save_to_wav_file fs ts b filename =
           Inr (fs((case filename of None \<Rightarrow> ''audio_output_'' @ ts @ ''.wav'' | Some f \<Rightarrow> f)
                     \<mapsto> canonical_header (length b) @ b),
                (case filename of None \<Rightarrow> ''audio_output_'' @ ts @ ''.wav'' | Some f \<Rightarrow> f))"
proof -
  from assms have "36 + length b < 2 ^ 32" by simp
  from writeframes_canonical [OF this] show ?thesis
    by (simp add: save_to_wav_file_def CHANNELS_def SAMPLE_RATE_def Let_def)
qed

lemma save_to_wav_file_too_long:
  assumes "2 ^ 32 \<le> 36 + length b"
  shows "save_to_wav_file fs ts b filename = Inl StructError"
  using writeframes_too_long [OF assms]
  by (simp add: save_to_wav_file_def CHANNELS_def SAMPLE_RATE_def Let_def)

lemma long_buffer:
  "2 ^ 32 \<le> 36 + length (replicate 4294967260 (0::byte))"
  "replicate 4294967260 (0::byte) \<noteq> []"
proof -
  have len: "length (replicate 4294967260 (0::byte)) = 4294967260"
    by (rule length_replicate)
  show "2 ^ 32 \<le> 36 + length (replicate 4294967260 (0::byte))"
    unfolding len by simp
  from len show "replicate 4294967260 (0::byte) \<noteq> []"
    by (metis length_0_conv zero_neq_numeral)
qed

text \<open>
  C4, as the code has it. For every byte sequence \<open>b\<close> with \<open>len(b) + 36 < 2^32\<close>,
  \<open>save_to_wav_file\<close> writes one and the same file contents whatever the file name,
  the clock and the files already present (so two calls on the same input give
  byte-identical output); the bytes after the 44-byte header are \<open>b\<close>; and the reader
  reports 1 channel, 24000 Hz, 16 bits per sample, \<open>len(b) // 2\<close> frames and, as the
  frames, the whole 2-byte frames of \<open>b\<close>. When \<open>len(b)\<close> is even the frames read back
  are exactly \<open>b\<close>.
\<close>

theorem wav_round_trip:
  assumes "length b + 36 < 2 ^ 32"
  shows "\<exists>wav.
           (\<forall>fs ts filename.
              save_to_wav_file fs ts b filename =
                Inr (fs((case filename of None \<Rightarrow> ''audio_output_'' @ ts @ ''.wav'' | Some f \<Rightarrow> f)
                          \<mapsto> wav),
                     (case filename of None \<Rightarrow> ''audio_output_'' @ ts @ ''.wav'' | Some f \<Rightarrow> f))) \<and>
           drop 44 wav = b \<and>
           read_wav wav =
             Some \<lparr>channels = 1, sample_rate = 24000, bits_per_sample = 16,
                   nframes = length b div 2, frames = take (length b div 2 * 2) b\<rparr> \<and>
           (even (length b) \<longrightarrow>
              read_wav wav =
                Some \<lparr>channels = 1, sample_rate = 24000, bits_per_sample = 16,
                      nframes = length b div 2, frames = b\<rparr>)"
proof -
  let ?wav = "canonical_header (length b) @ b"
  from assms have small: "36 + length b < 2 ^ 32" by simp
  have written: "\<forall>fs ts filename.
              save_to_wav_file fs ts b filename =
                Inr (fs((case filename of None \<Rightarrow> ''audio_output_'' @ ts @ ''.wav'' | Some f \<Rightarrow> f)
                          \<mapsto> ?wav),
                     (case filename of None \<Rightarrow> ''audio_output_'' @ ts @ ''.wav'' | Some f \<Rightarrow> f))"
    by (intro allI) (rule save_to_wav_file_canonical [OF assms])
  have verbatim: "drop 44 ?wav = b"
    by (simp add: header_segments)
  have readback: "read_wav ?wav =
             Some \<lparr>channels = 1, sample_rate = 24000, bits_per_sample = 16,
                   nframes = length b div 2, frames = take (length b div 2 * 2) b\<rparr>"
    by (rule read_wav_canonical [OF small])
  have whole: "even (length b) \<longrightarrow>
              read_wav ?wav =
                Some \<lparr>channels = 1, sample_rate = 24000, bits_per_sample = 16,
                      nframes = length b div 2, frames = b\<rparr>"
    using readback by (simp add: whole_frames)
  from written verbatim readback whole show ?thesis
    by blast
qed

theorem wav_round_trip_witness:
  "\<exists>wav.
     save_to_wav_file Map.empty ''20250101_000000'' [1, 2, 3, 4] None =
       Inr ([''audio_output_20250101_000000.wav'' \<mapsto> wav], ''audio_output_20250101_000000.wav'') \<and>
     save_to_wav_file Map.empty ''20250101_000001'' [1, 2, 3, 4] (Some ''out.wav'') =
       Inr ([''out.wav'' \<mapsto> wav], ''out.wav'') \<and>
     read_wav wav =
       Some \<lparr>channels = 1, sample_rate = 24000, bits_per_sample = 16,
             nframes = 2, frames = [1, 2, 3, 4]\<rparr>"
proof -
  have small: "length [1, 2, 3, 4 :: byte] + 36 < 2 ^ 32"
    by simp
  have ev: "even (length [1, 2, 3, 4 :: byte])"
    by simp
  from wav_round_trip [OF small] obtain wav where
    all: "\<forall>fs ts filename.
              save_to_wav_file fs ts [1, 2, 3, 4] filename =
                Inr (fs((case filename of None \<Rightarrow> ''audio_output_'' @ ts @ ''.wav'' | Some f \<Rightarrow> f)
                          \<mapsto> wav),
                     (case filename of None \<Rightarrow> ''audio_output_'' @ ts @ ''.wav'' | Some f \<Rightarrow> f))"
    and rd: "even (length [1, 2, 3, 4 :: byte]) \<longrightarrow>
       read_wav wav =
       Some \<lparr>channels = 1, sample_rate = 24000, bits_per_sample = 16,
             nframes = length [1, 2, 3, 4 :: byte] div 2, frames = [1, 2, 3, 4]\<rparr>"
    by blast
  from all have a: "save_to_wav_file Map.empty ''20250101_000000'' [1, 2, 3, 4] None =
       Inr ([''audio_output_20250101_000000.wav'' \<mapsto> wav], ''audio_output_20250101_000000.wav'')"
    by simp
  from all have b: "save_to_wav_file Map.empty ''20250101_000001'' [1, 2, 3, 4] (Some ''out.wav'') =
       Inr ([''out.wav'' \<mapsto> wav], ''out.wav'')"
    by simp
  from rd ev have c: "read_wav wav =
       Some \<lparr>channels = 1, sample_rate = 24000, bits_per_sample = 16,
             nframes = 2, frames = [1, 2, 3, 4]\<rparr>"
    by simp
  from a b c show ?thesis by blast
qed

text \<open>
  Without the two conditions the statement fails. For the three bytes \<open>1, 2, 3\<close> the file
  is written, but the reader finds one frame and returns \<open>1, 2\<close>. For a non-empty buffer
  of \<open>2^32 - 36\<close> bytes the RIFF length does not fit its 32-bit field and the call
  raises.
\<close>

theorem wav_round_trip_counterexample:
  "save_to_wav_file Map.empty ''20250101_000000'' [1, 2, 3] (Some ''out.wav'') =
     Inr ([''out.wav'' \<mapsto> canonical_header 3 @ [1, 2, 3]], ''out.wav'') \<and>
   map_option frames (read_wav (canonical_header 3 @ [1, 2, 3])) = Some [1, 2] \<and>
   replicate 4294967260 (0::byte) \<noteq> [] \<and>
   save_to_wav_file Map.empty ''20250101_000000'' (replicate 4294967260 0) None = Inl StructError"
proof -
  have small: "length [1, 2, 3 :: byte] + 36 < 2 ^ 32" "36 + length [1, 2, 3 :: byte] < 2 ^ 32"
    by simp_all
  have len: "length [1, 2, 3 :: byte] = 3"
    by simp
  from save_to_wav_file_canonical
         [OF small(1), of Map.empty "''20250101_000000''" "Some ''out.wav''", unfolded len]
  have a: "save_to_wav_file Map.empty ''20250101_000000'' [1, 2, 3] (Some ''out.wav'') =
     Inr ([''out.wav'' \<mapsto> canonical_header 3 @ [1, 2, 3]], ''out.wav'')"
    by simp
  from read_wav_canonical [OF small(2), unfolded len]
  have b: "map_option frames (read_wav (canonical_header 3 @ [1, 2, 3])) = Some [1, 2]"
    by simp
  note c = long_buffer(2)
  note d = save_to_wav_file_too_long
             [OF long_buffer(1), of Map.empty "''20250101_000000''" None]
  from a b c d show ?thesis
    by (intro conjI)
qed

text \<open>
  C5, as the code has it. For an empty audio buffer \<open>create_audio_file\<close> produces no
  file and returns \<open>None\<close> without raising, and \<open>None\<close> is returned for no other buffer;
  \<open>display_audio_response\<close> then shows nothing (no audio panel, no download button) and
  does not fail. For every non-empty buffer with \<open>len + 36 < 2^32\<close> the call succeeds:
  the temporary file holds the WAV serialization of the buffer, with the buffer as the
  bytes after the header, and its name is returned.
\<close>

theorem empty_audio_policy:
  "create_audio_file fs ts tmp [] = Inr (fs, None) \<and>
   display_audio_response st fs None = Inr (fs, []) \<and>
   (\<forall>fs'. create_audio_file fs ts tmp b = Inr (fs', None) \<longrightarrow> b = []) \<and>
   (b \<noteq> [] \<and> length b + 36 < 2 ^ 32 \<longrightarrow>
      (\<exists>wav. create_audio_file fs ts tmp b = Inr (fs(tmp \<mapsto> wav), Some tmp) \<and>
             drop 44 wav = b \<and>
             read_wav wav =
               Some \<lparr>channels = 1, sample_rate = 24000, bits_per_sample = 16,
                     nframes = length b div 2, frames = take (length b div 2 * 2) b\<rparr>))"
proof (intro conjI allI impI)
  show "create_audio_file fs ts tmp [] = Inr (fs, None)"
    by (simp add: create_audio_file_def)
  show "display_audio_response st fs None = Inr (fs, [])"
    by (simp add: display_audio_response_def)
next
  fix fs'
  assume "create_audio_file fs ts tmp b = Inr (fs', None)"
  then show "b = []"
    by (auto simp: create_audio_file_def split: if_splits sum.splits)
next
  assume b: "b \<noteq> [] \<and> length b + 36 < 2 ^ 32"
  then have small: "length b + 36 < 2 ^ 32" and small': "36 + length b < 2 ^ 32" by simp_all
  let ?wav = "canonical_header (length b) @ b"
  from b save_to_wav_file_canonical [OF small, of "fs(tmp \<mapsto> [])" ts "Some tmp"]
  have made: "create_audio_file fs ts tmp b = Inr (fs(tmp \<mapsto> ?wav), Some tmp)"
    by (simp add: create_audio_file_def)
  have verbatim: "drop 44 ?wav = b"
    by (simp add: header_segments)
  have readback: "read_wav ?wav =
      Some \<lparr>channels = 1, sample_rate = 24000, bits_per_sample = 16,
            nframes = length b div 2, frames = take (length b div 2 * 2) b\<rparr>"
    by (rule read_wav_canonical [OF small'])
  from made verbatim readback
  show "\<exists>wav. create_audio_file fs ts tmp b = Inr (fs(tmp \<mapsto> wav), Some tmp) \<and>
             drop 44 wav = b \<and>
             read_wav wav =
               Some \<lparr>channels = 1, sample_rate = 24000, bits_per_sample = 16,
                     nframes = length b div 2, frames = take (length b div 2 * 2) b\<rparr>"
    by blast
qed

theorem empty_audio_policy_witness:
  "create_audio_file Map.empty ''20250101_000000'' ''/tmp/tmpab12.wav'' [] = Inr (Map.empty, None) \<and>
   display_audio_response App Map.empty None = Inr (Map.empty, []) \<and>
   display_audio_response Streamlit Map.empty None = Inr (Map.empty, []) \<and>
   (\<exists>wav. create_audio_file Map.empty ''20250101_000000'' ''/tmp/tmpab12.wav'' [7, 8] =
             Inr ([''/tmp/tmpab12.wav'' \<mapsto> wav], Some ''/tmp/tmpab12.wav'') \<and>
           drop 44 wav = [7, 8] \<and>
           map_option frames (read_wav wav) = Some [7, 8])"
proof -
  have ok: "[7, 8 :: byte] \<noteq> [] \<and> length [7, 8 :: byte] + 36 < 2 ^ 32"
    by simp
  from empty_audio_policy
         [of Map.empty "''20250101_000000''" "''/tmp/tmpab12.wav''" App "[7, 8]"] ok
  obtain wav where
    "create_audio_file Map.empty ''20250101_000000'' ''/tmp/tmpab12.wav'' [] = Inr (Map.empty, None)"
    "display_audio_response App Map.empty None = Inr (Map.empty, [])"
    "create_audio_file Map.empty ''20250101_000000'' ''/tmp/tmpab12.wav'' [7, 8] =
       Inr ([''/tmp/tmpab12.wav'' \<mapsto> wav], Some ''/tmp/tmpab12.wav'')"
    "drop 44 wav = [7, 8]"
    "read_wav wav =
       Some \<lparr>channels = 1, sample_rate = 24000, bits_per_sample = 16,
             nframes = length [7, 8 :: byte] div 2,
             frames = take (length [7, 8 :: byte] div 2 * 2) [7, 8]\<rparr>"
    by blast
  moreover from empty_audio_policy
         [of Map.empty "''20250101_000000''" "''/tmp/tmpab12.wav''" Streamlit "[7, 8]"]
  have "display_audio_response Streamlit Map.empty None = Inr (Map.empty, [])"
    by blast
  ultimately show ?thesis
    by (intro conjI exI [of _ wav]) simp_all
qed

text \<open>
  Not every non-empty buffer is serialized: for the buffer of \<open>2^32 - 36\<close> bytes
  \<open>create_audio_file\<close> raises.
\<close>

theorem create_audio_file_too_long_counterexample:
  "replicate 4294967260 (0::byte) \<noteq> [] \<and>
   create_audio_file Map.empty ''20250101_000000'' ''/tmp/tmpab12.wav''
     (replicate 4294967260 0) = Inl StructError"
proof -
  from save_to_wav_file_too_long [OF long_buffer(1)]
  have "save_to_wav_file [''/tmp/tmpab12.wav'' \<mapsto> []] ''20250101_000000''
          (replicate 4294967260 0) (Some ''/tmp/tmpab12.wav'') = Inl StructError" .
  then have "create_audio_file Map.empty ''20250101_000000'' ''/tmp/tmpab12.wav''
     (replicate 4294967260 0) = Inl StructError"
    unfolding create_audio_file_def using long_buffer(2) by (simp only: if_False sum.case)
  with long_buffer(2) show ?thesis by (rule conjI)
qed

end
